theory Spec2Isabelle
  imports Complex_Main "HOL-Library.Word"
begin

unbundle bit_operations_syntax

section \<open>Colours and the ZX Spectrum palette\<close>

text \<open>
  Go's \<open>color.RGBA\<close>: four 8-bit channels. Its method \<open>RGBA()\<close> widens every channel
  to 16 bits inside a \<open>uint32\<close> by repeating the byte (\<open>r |= r << 8\<close>).
\<close>

datatype color = RGBA (colR: "8 word") (colG: "8 word") (colB: "8 word") (colA: "8 word")

definition widen :: "8 word \<Rightarrow> 32 word" where
  "widen c = (ucast c) OR (push_bit 8 (ucast c))"

definition colorRGBA :: "color \<Rightarrow> 32 word \<times> 32 word \<times> 32 word \<times> 32 word" where
  "colorRGBA c = (widen (colR c), widen (colG c), widen (colB c), widen (colA c))"

definition ZXPalette :: "color list" where
  "ZXPalette =
    [RGBA 0 0 0 255, RGBA 0 0 215 255, RGBA 215 0 0 255, RGBA 215 0 215 255,
     RGBA 0 215 0 255, RGBA 0 215 215 255, RGBA 215 215 0 255, RGBA 215 215 215 255,
     RGBA 0 0 0 255, RGBA 0 0 255 255, RGBA 255 0 0 255, RGBA 255 0 255 255,
     RGBA 0 255 0 255, RGBA 0 255 255 255, RGBA 255 255 0 255, RGBA 255 255 255 255]"

section \<open>nearestColor\<close>

text \<open>
  \<open>nearestColor\<close> computes in \<open>float64\<close>. Every value it handles is an integer: the
  channels \<open>r >> 8\<close> are below \<open>2^24\<close>, the palette bytes below \<open>2^8\<close>, so each
  difference is below \<open>2^24\<close> in absolute value, each square below \<open>2^48\<close> and each
  sum below \<open>2^50\<close>. Integers of that size are exact in \<open>float64\<close> (53 bits of
  mantissa), so the model computes over \<open>int\<close>. The start value \<open>math.MaxFloat64\<close>
  is the integer \<open>2^1024 - 2^971\<close>.
\<close>

definition MaxFloat64 :: int where
  "MaxFloat64 = 2 ^ 1024 - 2 ^ 971"

definition sqDist :: "int \<Rightarrow> int \<Rightarrow> int \<Rightarrow> color \<Rightarrow> int" where
  "sqDist cr cg cb pal =
     (let dr = cr - uint (colR pal);
          dg = cg - uint (colG pal);
          db = cb - uint (colB pal)
      in dr * dr + dg * dg + db * db)"

text \<open>The \<open>range\<close> loop over the palette; \<open>i\<close> is the loop index.\<close>

fun nearestLoop :: "int \<Rightarrow> int \<Rightarrow> int \<Rightarrow> color list \<Rightarrow> nat \<Rightarrow> nat \<times> int \<Rightarrow> nat \<times> int" where
  "nearestLoop cr cg cb [] i best = best"
| "nearestLoop cr cg cb (pal # rest) i (bestIndex, bestDist) =
     (let dist = sqDist cr cg cb pal
      in if dist < bestDist
         then nearestLoop cr cg cb rest (Suc i) (i, dist)
         else nearestLoop cr cg cb rest (Suc i) (bestIndex, bestDist))"

definition nearestColor :: "32 word \<Rightarrow> 32 word \<Rightarrow> 32 word \<Rightarrow> int" where
  "nearestColor r g b =
     (let cr = uint (drop_bit 8 r);
          cg = uint (drop_bit 8 g);
          cb = uint (drop_bit 8 b)
      in int (fst (nearestLoop cr cg cb ZXPalette 0 (0, MaxFloat64))))"


section \<open>Strings and the library functions the program calls\<close>

text \<open>
  A Go string is a sequence of bytes and \<open>len\<close> counts bytes, so strings are
  \<^typ>\<open>string\<close> (lists of 8-bit characters). Library functions that decode UTF-8 are
  modelled on the bytes, with the decoding written out where it changes the result.
\<close>

definition byte :: "char \<Rightarrow> nat" where
  "byte c = of_char c"

definition HasPrefix :: "string \<Rightarrow> string \<Rightarrow> bool" where
  "HasPrefix s p = (take (length p) s = p)"

definition TrimPrefix :: "string \<Rightarrow> string \<Rightarrow> string" where
  "TrimPrefix s p = (if HasPrefix s p then drop (length p) s else s)"

text \<open>\<open>strings.TrimRight(line, "\r")\<close>: every trailing carriage return goes.\<close>

definition TrimRightCR :: "string \<Rightarrow> string" where
  "TrimRightCR s = rev (dropWhile (\<lambda>c. c = CHR 0x0D) (rev s))"

text \<open>\<open>strings.Index(line, "#")\<close> and the slice \<open>line[:idx]\<close> that follows it.\<close>

definition stripInlineComment :: "string \<Rightarrow> string" where
  "stripInlineComment line = takeWhile (\<lambda>c. c \<noteq> CHR ''#'') line"

text \<open>\<open>strings.SplitN(line, ":", 2)\<close>: one part without a colon, otherwise two.\<close>

definition SplitN2 :: "string \<Rightarrow> string list" where
  "SplitN2 line =
     (case dropWhile (\<lambda>c. c \<noteq> CHR '':'') line of
        [] \<Rightarrow> [line]
      | _ # rest \<Rightarrow> [takeWhile (\<lambda>c. c \<noteq> CHR '':'') line, rest])"

subsection \<open>Digits\<close>

text \<open>
  The digit test of \<open>strconv.ParseUint\<close> in base 16, which is also the set
  \<open>unicode.ASCII_Hex_Digit\<close>: \<open>0-9\<close>, \<open>a-f\<close>, \<open>A-F\<close>.
\<close>

definition hexDigitValue :: "char \<Rightarrow> nat option" where
  "hexDigitValue c =
     (let n = byte c in
      if 48 \<le> n \<and> n \<le> 57 then Some (n - 48)
      else if 97 \<le> n \<and> n \<le> 102 then Some (n - 97 + 10)
      else if 65 \<le> n \<and> n \<le> 70 then Some (n - 65 + 10)
      else None)"

definition isHexDigit :: "char \<Rightarrow> bool" where
  "isHexDigit c = (hexDigitValue c \<noteq> None)"

text \<open>
  \<open>strconv.ParseUint(s, 16, 8)\<close>: the empty string and any non-digit are syntax errors,
  a value above 255 is a range error; no sign, prefix or underscore is accepted in an
  explicit base.
\<close>

fun parseHexDigits :: "nat \<Rightarrow> string \<Rightarrow> nat option" where
  "parseHexDigits acc [] = Some acc"
| "parseHexDigits acc (c # cs) =
     (case hexDigitValue c of
        None \<Rightarrow> None
      | Some d \<Rightarrow> parseHexDigits (acc * 16 + d) cs)"

definition ParseUint_16_8 :: "string \<Rightarrow> nat option" where
  "ParseUint_16_8 s =
     (if s = [] then None
      else case parseHexDigits 0 s of
             None \<Rightarrow> None
           | Some v \<Rightarrow> if v > 255 then None else Some v)"

text \<open>
  \<open>strconv.FormatInt(i, base)\<close> for bases 2 to 36 (the library panics on any other
  base, which the program never passes), and with base 10 the verb \<open>%d\<close> of \<open>fmt\<close>.
\<close>

definition digits :: string where
  "digits = ''0123456789abcdefghijklmnopqrstuvwxyz''"

function formatNat :: "nat \<Rightarrow> nat \<Rightarrow> string" where
  "formatNat base n =
     (if base < 2 then []
      else if n < base then [digits ! n]
      else formatNat base (n div base) @ [digits ! (n mod base)])"
  by pat_completeness auto
termination
  by (relation "measure (\<lambda>(base, n). n)") auto

declare formatNat.simps [simp del]

definition FormatInt :: "int \<Rightarrow> nat \<Rightarrow> string" where
  "FormatInt i base =
     (if i < 0 then CHR ''-'' # formatNat base (nat (- i)) else formatNat base (nat i))"

definition upperByte :: "char \<Rightarrow> char" where
  "upperByte c = (if 97 \<le> byte c \<and> byte c \<le> 122 then char_of (byte c - 32) else c)"

definition lowerByte :: "char \<Rightarrow> char" where
  "lowerByte c = (if 65 \<le> byte c \<and> byte c \<le> 90 then char_of (byte c + 32) else c)"

text \<open>\<open>strings.ToUpper\<close> on the ASCII output of \<open>FormatInt\<close>.\<close>

definition ToUpperASCII :: "string \<Rightarrow> string" where
  "ToUpperASCII s = map upperByte s"


subsection \<open>UTF-8 decoding as \<open>range\<close> and \<open>strings.Map\<close> do it\<close>

text \<open>
  \<open>utf8.DecodeRuneInString\<close>: the number of bytes of the rune at the head of the string
  and whether it is a valid encoding. An invalid or truncated sequence decodes as
  \<open>utf8.RuneError\<close> of width 1.
\<close>

definition inRange :: "nat \<Rightarrow> nat \<Rightarrow> char \<Rightarrow> bool" where
  "inRange lo hi c = (lo \<le> byte c \<and> byte c \<le> hi)"

definition decodeRuneWidth :: "string \<Rightarrow> nat \<times> bool" where
  "decodeRuneWidth s =
     (case s of
        [] \<Rightarrow> (0, False)
      | s0 # rest \<Rightarrow>
          let b = byte s0 in
          if b < 0x80 then (1, True)
          else if b < 0xC2 \<or> 0xF4 < b then (1, False)
          else
            let sz = (if b < 0xE0 then 2 else if b < 0xF0 then 3 else 4 :: nat);
                lo = (if b = 0xE0 then 0xA0 else if b = 0xF0 then 0x90 else 0x80);
                hi = (if b = 0xED then 0x9F else if b = 0xF4 then 0x8F else 0xBF)
            in if length s < sz then (1, False)
               else if \<not> inRange lo hi (rest ! 0) then (1, False)
               else if sz \<le> 2 then (2, True)
               else if \<not> inRange 0x80 0xBF (rest ! 1) then (1, False)
               else if sz \<le> 3 then (3, True)
               else if \<not> inRange 0x80 0xBF (rest ! 2) then (1, False)
               else (4, True))"

text \<open>The UTF-8 encoding of \<open>utf8.RuneError\<close> (U+FFFD).\<close>

definition RuneErrorBytes :: string where
  "RuneErrorBytes = [CHR 0xEF, CHR 0xBF, CHR 0xBD]"

section \<open>filterHexLine and filterHexString\<close>

text \<open>
  \<open>filterHexLine\<close> is \<open>strings.Map\<close> with a mapping that drops space and tab and keeps
  every other rune. \<open>strings.Map\<close> writes the mapped runes back as UTF-8, so a byte that
  is not part of a valid encoding comes out as the three bytes of U+FFFD.
\<close>

function filterHexLine :: "string \<Rightarrow> string" where
  "filterHexLine s =
     (case s of
        [] \<Rightarrow> []
      | c # rest \<Rightarrow>
          if c = CHR '' '' \<or> c = CHR 0x09 then filterHexLine rest
          else (case decodeRuneWidth s of
                  (w, valid) \<Rightarrow>
                    if valid then take w s @ filterHexLine (drop (max 1 w) s)
                    else RuneErrorBytes @ filterHexLine rest))"
  by pat_completeness auto
termination
  by (relation "measure length") auto

declare filterHexLine.simps [simp del]

text \<open>
  \<open>filterHexString\<close> ranges over the runes and keeps the ASCII hex digits and the dot.
  Every byte of a multi-byte or invalid sequence is at least \<open>0x80\<close>, so is neither; the
  loop therefore keeps exactly the bytes that are hex digits or dots.
\<close>

definition keepChar :: "char \<Rightarrow> bool" where
  "keepChar r = (isHexDigit r \<or> r = CHR ''.'')"

definition filterHexString :: "string \<Rightarrow> string" where
  "filterHexString input = filter keepChar input"


section \<open>Case folding and space trimming\<close>

text \<open>
  The program compares \<open>strings.ToLower(s)\<close> with ASCII text only. \<open>ToLower\<close> maps rune
  by rune, so the comparison is decided rune by rune: an ASCII byte is compared after
  ASCII lower-casing, and of the runes beyond ASCII only U+0130 (bytes \<open>C4 B0\<close>,
  lower-cased to \<open>i\<close>) and U+212A (bytes \<open>E2 84 AA\<close>, lower-cased to \<open>k\<close>) have an ASCII
  lower case. \<open>lowersTo p s\<close> is the width of the leading rune of \<open>s\<close> when that rune
  lower-cases to the ASCII character \<open>p\<close>, and 0 when it does not.
\<close>

definition lowersTo :: "char \<Rightarrow> string \<Rightarrow> nat" where
  "lowersTo p s =
     (case s of
        [] \<Rightarrow> 0
      | c # rest \<Rightarrow>
          if byte c < 0x80 then (if lowerByte c = p then 1 else 0)
          else if p = CHR ''i'' \<and> take 2 s = [CHR 0xC4, CHR 0xB0] then 2
          else if p = CHR ''k'' \<and> take 3 s = [CHR 0xE2, CHR 0x84, CHR 0xAA] then 3
          else 0)"

text \<open>\<open>strings.HasPrefix(strings.ToLower(s), p)\<close> for an ASCII lower-case \<open>p\<close>.\<close>

fun lowerHasPrefix :: "string \<Rightarrow> string \<Rightarrow> bool" where
  "lowerHasPrefix s [] = True"
| "lowerHasPrefix s (p # ps) =
     (case lowersTo p s of
        0 \<Rightarrow> False
      | Suc n \<Rightarrow> lowerHasPrefix (drop (Suc n) s) ps)"

text \<open>\<open>strings.ToLower(s) == p\<close> for an ASCII lower-case \<open>p\<close>.\<close>

fun lowerEquals :: "string \<Rightarrow> string \<Rightarrow> bool" where
  "lowerEquals s [] = (s = [])"
| "lowerEquals s (p # ps) =
     (case lowersTo p s of
        0 \<Rightarrow> False
      | Suc n \<Rightarrow> lowerEquals (drop (Suc n) s) ps)"

text \<open>
  \<open>strings.TrimSpace\<close> removes the runes of \<open>unicode.IsSpace\<close> from both ends. These are
  their UTF-8 encodings: the six ASCII spaces, U+0085, U+00A0, U+1680, U+2000 to U+200A,
  U+2028, U+2029, U+202F, U+205F and U+3000. A string starts (ends) with such a rune
  exactly when it starts (ends) with one of these byte sequences.
\<close>

definition spaceEncodings :: "string list" where
  "spaceEncodings =
     [[CHR 0x09], [CHR 0x0A], [CHR 0x0B], [CHR 0x0C], [CHR 0x0D], [CHR 0x20],
      [CHR 0xC2, CHR 0x85], [CHR 0xC2, CHR 0xA0], [CHR 0xE1, CHR 0x9A, CHR 0x80],
      [CHR 0xE2, CHR 0x80, CHR 0x80], [CHR 0xE2, CHR 0x80, CHR 0x81],
      [CHR 0xE2, CHR 0x80, CHR 0x82], [CHR 0xE2, CHR 0x80, CHR 0x83],
      [CHR 0xE2, CHR 0x80, CHR 0x84], [CHR 0xE2, CHR 0x80, CHR 0x85],
      [CHR 0xE2, CHR 0x80, CHR 0x86], [CHR 0xE2, CHR 0x80, CHR 0x87],
      [CHR 0xE2, CHR 0x80, CHR 0x88], [CHR 0xE2, CHR 0x80, CHR 0x89],
      [CHR 0xE2, CHR 0x80, CHR 0x8A], [CHR 0xE2, CHR 0x80, CHR 0xA8],
      [CHR 0xE2, CHR 0x80, CHR 0xA9], [CHR 0xE2, CHR 0x80, CHR 0xAF],
      [CHR 0xE2, CHR 0x81, CHR 0x9F], [CHR 0xE3, CHR 0x80, CHR 0x80]]"

definition leadingLen :: "string list \<Rightarrow> string \<Rightarrow> nat" where
  "leadingLen encs s =
     (case filter (\<lambda>e. e \<noteq> [] \<and> take (length e) s = e) encs of
        [] \<Rightarrow> 0
      | e # _ \<Rightarrow> length e)"

lemma leadingLen_Nil: "leadingLen encs [] = 0"
proof -
  have "filter (\<lambda>e. e \<noteq> [] \<and> take (length e) [] = e) encs = []"
    by (induction encs) auto
  then show ?thesis by (simp add: leadingLen_def)
qed

function trimLeading :: "string list \<Rightarrow> string \<Rightarrow> string" where
  "trimLeading encs s =
     (case leadingLen encs s of
        0 \<Rightarrow> s
      | Suc n \<Rightarrow> trimLeading encs (drop (Suc n) s))"
  by pat_completeness auto
termination
proof (relation "measure (\<lambda>(encs, s). length s)")
  show "wf (measure (\<lambda>(encs, s). length s))" by simp
next
  fix encs :: "string list" and s :: string and n
  assume "leadingLen encs s = Suc n"
  then have "s \<noteq> []" using leadingLen_Nil [of encs] by auto
  then show "((encs, drop (Suc n) s), (encs, s)) \<in> measure (\<lambda>(encs, s). length s)"
    by simp
qed

declare trimLeading.simps [simp del]

definition TrimSpace :: "string \<Rightarrow> string" where
  "TrimSpace s =
     rev (trimLeading (map rev spaceEncodings) (rev (trimLeading spaceEncodings s)))"

section \<open>Errors\<close>

datatype error =
    OpenError
  | DecodeFailure
  | UnsupportedFormat string
  | ReadError
  | ErrTooLong
  | EmptyInput
  | InvalidDigit char
  | InvalidWebColor
  | CreateError
  | WriteError
  | EncodeError
  | HugeDimensions
  | OutOfMemory

text \<open>
  The last two are not errors that a function of the program returns. They are the two
  ways in which a call of \<open>image.NewRGBA\<close> ends the run: the panic of the library on a
  rectangle with \<open>huge or negative dimensions\<close>, and a pixel buffer that the run time
  cannot provide. The program recovers from neither.
\<close>

definition aborts :: "error \<Rightarrow> bool" where
  "aborts err = (err = HugeDimensions \<or> err = OutOfMemory)"

section \<open>bufio.Scanner\<close>

text \<open>
  \<open>bufio.ScanLines\<close> cuts the input at every line feed; what follows the last line feed
  is a line of its own unless it is empty.
\<close>

fun scanLines :: "string \<Rightarrow> string list" where
  "scanLines [] = []"
| "scanLines (c # cs) =
     (if c = CHR 0x0A then [] # scanLines cs
      else (case scanLines cs of
              [] \<Rightarrow> [[c]]
            | l # ls \<Rightarrow> (c # l) # ls))"

definition dropCR :: "string \<Rightarrow> string" where
  "dropCR data = (if data \<noteq> [] \<and> last data = CHR 0x0D then butlast data else data)"

text \<open>
  The scanner's buffer grows up to \<open>bufio.MaxScanTokenSize\<close> bytes. A line whose bytes
  before the line feed do not fit (65536 or more of them) stops the scan with
  \<open>bufio.ErrTooLong\<close>, which \<open>scanner.Err()\<close> reports after the loop.
\<close>

definition MaxScanTokenSize :: nat where
  "MaxScanTokenSize = 65536"

definition scanAll :: "string \<Rightarrow> error + string list" where
  "scanAll content =
     (let raw = scanLines content in
      if \<exists>l \<in> set raw. MaxScanTokenSize \<le> length l then Inl ErrTooLong
      else Inr (map dropCR raw))"


section \<open>The world outside the program\<close>

text \<open>
  Images as \<open>image.RGBA\<close> holds them: a rectangle and one colour per point. \<open>image.Rect\<close>
  swaps its coordinates into order; \<open>Set\<close> ignores a point outside the rectangle and
  \<open>At\<close> answers the zero colour there. \<open>Dx\<close> and \<open>Dy\<close> are the exact differences of the
  coordinates; where the program computes them on rectangles that it has not yet
  allocated, in \<open>image.NewRGBA\<close>, the wrap-around of Go's \<open>int\<close> is written out.
\<close>

record rectangle =
  minX :: int
  minY :: int
  maxX :: int
  maxY :: int

definition Rect :: "int \<Rightarrow> int \<Rightarrow> int \<Rightarrow> int \<Rightarrow> rectangle" where
  "Rect x0 y0 x1 y1 =
     \<lparr>minX = (if x0 > x1 then x1 else x0), minY = (if y0 > y1 then y1 else y0),
      maxX = (if x0 > x1 then x0 else x1), maxY = (if y0 > y1 then y0 else y1)\<rparr>"

definition Dx :: "rectangle \<Rightarrow> int" where
  "Dx r = maxX r - minX r"

definition Dy :: "rectangle \<Rightarrow> int" where
  "Dy r = maxY r - minY r"

definition pointIn :: "int \<Rightarrow> int \<Rightarrow> rectangle \<Rightarrow> bool" where
  "pointIn x y r = (minX r \<le> x \<and> x < maxX r \<and> minY r \<le> y \<and> y < maxY r)"

record image =
  bounds :: rectangle
  pix :: "int \<times> int \<Rightarrow> color"

definition zeroImage :: "rectangle \<Rightarrow> image" where
  "zeroImage r = \<lparr>bounds = r, pix = (\<lambda>p. RGBA 0 0 0 0)\<rparr>"

definition imgSet :: "image \<Rightarrow> int \<Rightarrow> int \<Rightarrow> color \<Rightarrow> image" where
  "imgSet img x y c =
     (if pointIn x y (bounds img) then img\<lparr>pix := (pix img)((x, y) := c)\<rparr> else img)"

definition imgAt :: "image \<Rightarrow> int \<Rightarrow> int \<Rightarrow> color" where
  "imgAt img x y = (if pointIn x y (bounds img) then pix img (x, y) else RGBA 0 0 0 0)"

text \<open>
  What the operating system, the image decoders and the run time answer. \<open>openImage\<close>
  stands for \<open>os.Open\<close> and \<open>image.Decode\<close>: it gives the format name and the decoded
  image, or the error of one of the two. The colour of a point of the decoded image is
  the one that \<open>draw.Draw\<close> stores for it in an \<open>image.RGBA\<close>. \<open>canAllocate n\<close> says
  whether the run time provides a pixel buffer of \<open>n\<close> bytes to \<open>make\<close>.
\<close>

record world =
  fileExists :: "string \<Rightarrow> bool"
  readFile :: "string \<Rightarrow> string option"
  openImage :: "string \<Rightarrow> error + (string \<times> image)"
  canCreate :: "string \<Rightarrow> bool"
  canWrite :: "string \<Rightarrow> bool"
  canAllocate :: "int \<Rightarrow> bool"

section \<open>image.NewRGBA and draw.Draw\<close>

text \<open>
  Go's \<open>int\<close> is taken at 64 bits, its size on amd64 and arm64: the result of an
  addition or subtraction is the exact one brought back into \<open>-2^63 .. 2^63 - 1\<close>.
  (With the 32 bits of 386 and arm the bound \<open>2^63\<close> below is \<open>2^31\<close>, and no buffer of
  \<open>2^31\<close> bytes or more is ever provided there.)
\<close>

definition goInt :: "int \<Rightarrow> int" where
  "goInt x = (x + 2 ^ 63) mod 2 ^ 64 - 2 ^ 63"

text \<open>
  \<open>image.mul3NonNeg\<close>: the product of three \<open>int\<close>s, or \<open>-1\<close> when one of them is negative
  or the product does not fit in an \<open>int\<close>. The library multiplies in \<open>uint64\<close> and looks
  at the high word after each of the two multiplications, then at the sign.
\<close>

definition mul3NonNeg :: "int \<Rightarrow> int \<Rightarrow> int \<Rightarrow> int" where
  "mul3NonNeg x y z =
     (if x < 0 \<or> y < 0 \<or> z < 0 then - 1
      else if 2 ^ 64 \<le> x * y then - 1
      else if 2 ^ 64 \<le> x * y * z then - 1
      else if 2 ^ 63 \<le> x * y * z then - 1
      else x * y * z)"

text \<open>
  \<open>image.NewRGBA\<close> computes the length of the pixel buffer, four bytes per pixel, with
  \<open>mul3NonNeg\<close> from \<open>r.Dx()\<close> and \<open>r.Dy()\<close> and panics when the answer is negative.
  Otherwise it asks \<open>make\<close> for the buffer, which ends the run when the run time does
  not have the memory (a buffer of length 0 needs none), and returns the image with
  every byte of the buffer zero.
\<close>

definition NewRGBA :: "world \<Rightarrow> rectangle \<Rightarrow> error + image" where
  "NewRGBA w r =
     (let totalLength = mul3NonNeg 4 (goInt (Dx r)) (goInt (Dy r)) in
      if totalLength < 0 then Inl HugeDimensions
      else if totalLength \<noteq> 0 \<and> \<not> canAllocate w totalLength then Inl OutOfMemory
      else Inr (zeroImage r))"

text \<open>
  \<open>draw.Draw(dst, r, src, r.Min, draw.Src)\<close> with \<open>r\<close> the bounds of both images: every
  point of the rectangle takes the colour of the source.
\<close>

definition Draw :: "image \<Rightarrow> image \<Rightarrow> image" where
  "Draw dst src =
     dst\<lparr>pix := (\<lambda>p. if pointIn (fst p) (snd p) (bounds dst) then pix src p
                       else pix dst p)\<rparr>"

section \<open>parseWebColor and shouldBeTransparent\<close>

text \<open>The two global variables set from the command line.\<close>

record config =
  transpColorStr :: string
  transpIndex :: int

text \<open>
  \<open>parseWebColor\<close> drops one leading \<open>#\<close>, wants six bytes and reads them as three
  hexadecimal bytes; the alpha of the result is 255. \<open>shouldBeTransparent\<close> compares
  against it the pixel's channels cut down to 8 bits (\<open>uint8(r >> 8)\<close>), and skips the
  comparison when the configured string does not parse.
\<close>

definition parseWebColor :: "string \<Rightarrow> error + color" where
  "parseWebColor s0 =
     (let s = TrimPrefix s0 ''#'' in
      if length s \<noteq> 6 then Inl InvalidWebColor
      else case ParseUint_16_8 (take 2 s) of
        None \<Rightarrow> Inl InvalidWebColor
      | Some r \<Rightarrow>
         (case ParseUint_16_8 (take 2 (drop 2 s)) of
            None \<Rightarrow> Inl InvalidWebColor
          | Some g \<Rightarrow>
             (case ParseUint_16_8 (take 2 (drop 4 s)) of
                None \<Rightarrow> Inl InvalidWebColor
              | Some b \<Rightarrow> Inr (RGBA (of_nat r) (of_nat g) (of_nat b) 255))))"

definition shouldBeTransparent ::
  "config \<Rightarrow> 32 word \<Rightarrow> 32 word \<Rightarrow> 32 word \<Rightarrow> 32 word \<Rightarrow> bool" where
  "shouldBeTransparent cfg r g b a =
     (if a = 0 then True
      else if transpColorStr cfg \<noteq> [] \<and>
              (case parseWebColor (transpColorStr cfg) of
                 Inl err \<Rightarrow> False
               | Inr tcol \<Rightarrow>
                   (ucast (drop_bit 8 r) :: 8 word) = colR tcol \<and>
                   (ucast (drop_bit 8 g) :: 8 word) = colG tcol \<and>
                   (ucast (drop_bit 8 b) :: 8 word) = colB tcol)
      then True
      else if transpIndex cfg \<ge> 0 \<and> nearestColor r g b = transpIndex cfg then True
      else False)"

section \<open>imageToHex and imageToRawHex\<close>

text \<open>
  Both encoders draw the decoded image into a fresh \<open>image.RGBA\<close> of the same bounds and
  write one character per pixel of it, row by row from
  the top and from left to right in a row: a dot for a pixel that \<open>shouldBeTransparent\<close>
  accepts, otherwise the upper-case hexadecimal digit of its nearest palette index.
  \<open>imageToHex\<close> puts four header lines in front and ends every row with a line feed;
  \<open>imageToRawHex\<close> writes the rows one after the other and a single line feed at the end.
  The width and the height of the header are \<open>bounds.Dx()\<close> and \<open>bounds.Dy()\<close> of bounds
  that \<open>image.NewRGBA\<close> has accepted, so the exact differences.
\<close>

definition newline :: string where
  "newline = [CHR 0x0A]"

definition encodePixel :: "config \<Rightarrow> color \<Rightarrow> string" where
  "encodePixel cfg c =
     (case colorRGBA c of
        (r, g, b, a) \<Rightarrow>
          if shouldBeTransparent cfg r g b a then ''.''
          else ToUpperASCII (FormatInt (nearestColor r g b) 16))"

definition encodeRow :: "config \<Rightarrow> image \<Rightarrow> int \<Rightarrow> string" where
  "encodeRow cfg rgba y =
     concat (map (\<lambda>x. encodePixel cfg (imgAt rgba x y))
                 [minX (bounds rgba) .. maxX (bounds rgba) - 1])"

definition supportedFormat :: "string \<Rightarrow> bool" where
  "supportedFormat format = (format = ''png'' \<or> format = ''gif'' \<or> format = ''bmp'')"

definition imageToHex :: "config \<Rightarrow> world \<Rightarrow> string \<Rightarrow> error + string" where
  "imageToHex cfg w filename =
     (case openImage w filename of
        Inl err \<Rightarrow> Inl err
      | Inr (format, img) \<Rightarrow>
          if \<not> supportedFormat format then Inl (UnsupportedFormat format)
          else
            (case NewRGBA w (bounds img) of
               Inl err \<Rightarrow> Inl err
             | Inr fresh \<Rightarrow>
                 (let rgba = Draw fresh img in
                  Inr (''# file: '' @ filename @ newline @
                       ''# width: '' @ FormatInt (Dx (bounds img)) 10 @ newline @
                       ''# height: '' @ FormatInt (Dy (bounds img)) 10 @ newline @
                       ''# generator: zxtex'' @ newline @
                       concat (map (\<lambda>y. encodeRow cfg rgba y @ newline)
                                   [minY (bounds img) .. maxY (bounds img) - 1])))))"

definition imageToRawHex :: "config \<Rightarrow> world \<Rightarrow> string \<Rightarrow> error + string" where
  "imageToRawHex cfg w filename =
     (case openImage w filename of
        Inl err \<Rightarrow> Inl err
      | Inr (format, img) \<Rightarrow>
          if \<not> supportedFormat format then Inl (UnsupportedFormat format)
          else
            (case NewRGBA w (bounds img) of
               Inl err \<Rightarrow> Inl err
             | Inr fresh \<Rightarrow>
                 (let rgba = Draw fresh img in
                  Inr (concat (map (\<lambda>y. encodeRow cfg rgba y)
                                   [minY (bounds img) .. maxY (bounds img) - 1]) @
                       newline))))"

section \<open>readHexFromTextFile\<close>

text \<open>
  The loop over the lines of the scanner keeps three variables: the list
  \<open>filteredLines\<close>, the \<open>width\<close> (here \<open>firstWidth\<close>) and \<open>origFileName\<close>.
  \<open>processLine\<close> is the body of the loop for one line. \<open>parseContent\<close> is the function
  from the content of the file on: the scan, the check of \<open>scanner.Err()\<close>, the join of
  the filtered lines and the final \<open>filterHexString\<close>. \<open>readHexFromTextFile\<close> reads the
  file first and fails if that fails.
\<close>

record scan_state =
  filteredLines :: "string list"
  firstWidth :: int
  origFileName :: string

definition processLine :: "scan_state \<Rightarrow> string \<Rightarrow> scan_state" where
  "processLine st text =
     (let line = TrimRightCR text in
      if HasPrefix line ''#'' then
        (if lowerHasPrefix line ''# file:'' then
           (let parts = SplitN2 line in
            if length parts = 2 then st\<lparr>origFileName := TrimSpace (parts ! 1)\<rparr> else st)
         else st)
      else
        (let filtered = filterHexLine (stripInlineComment line) in
         if length filtered > 0 then
           st\<lparr>firstWidth := (if firstWidth st = 0 then int (length filtered) else firstWidth st),
              filteredLines := filteredLines st @ [filtered]\<rparr>
         else st))"

definition initState :: scan_state where
  "initState = \<lparr>filteredLines = [], firstWidth = 0, origFileName = []\<rparr>"

definition parseContent :: "string \<Rightarrow> error + (string \<times> int \<times> string)" where
  "parseContent content =
     (case scanAll content of
        Inl err \<Rightarrow> Inl err
      | Inr lines \<Rightarrow>
          (let st = foldl processLine initState lines;
               joined = filterHexString (concat (filteredLines st))
           in Inr (joined, firstWidth st, origFileName st)))"

definition readHexFromTextFile :: "world \<Rightarrow> string \<Rightarrow> error + (string \<times> int \<times> string)" where
  "readHexFromTextFile w filename =
     (case readFile w filename of
        None \<Rightarrow> Inl ReadError
      | Some content \<Rightarrow> parseContent content)"


section \<open>hexToImage\<close>

text \<open>
  Go's \<open>/\<close> and \<open>%\<close> on \<open>int\<close> truncate towards zero. The width is an \<open>int\<close> of the
  program, so between \<open>-2^63\<close> and \<open>2^63 - 1\<close> (see \<open>goInt\<close>).
\<close>

definition goQuo :: "int \<Rightarrow> int \<Rightarrow> int" where
  "goQuo a b = sgn a * sgn b * (\<bar>a\<bar> div \<bar>b\<bar>)"

definition goRem :: "int \<Rightarrow> int \<Rightarrow> int" where
  "goRem a b = a - b * goQuo a b"

text \<open>
  The two \<open>float64\<close> computations of \<open>hexToImage\<close>, over the integers. The length of a
  string is far below \<open>2^53\<close>, so \<open>float64(total)\<close> and \<open>float64(width)\<close> are exact.
  \<^item> \<open>int(math.Sqrt(float64(total)))\<close> is used only in the test \<open>sq*sq == total\<close>. The
    square root of a perfect square is exact, and no integer squares to anything else, so
    the test comes out as it does for the integer square root \<open>floorSqrt\<close>.
  \<^item> \<open>int(math.Ceil(float64(total) / float64(width)))\<close>: the quotient of two integers
    below \<open>2^53\<close> is an integer or at least \<open>1/\<bar>width\<bar>\<close> away from one, more than the
    rounding error of the division, so the rounded quotient has the ceiling of the exact
    one; \<open>ceilDiv\<close> computes it with the floor division of \<open>int\<close>. A width of \<open>2^53\<close> or
    more in absolute value is rounded by \<open>float64(width)\<close> but stays at least \<open>2^53\<close>, more
    than \<open>total\<close>: the quotient lies strictly between 0 and 1 in absolute value, its
    ceiling is 1 for a positive and 0 for a negative width, as \<open>ceilDiv\<close> answers.
\<close>

fun sqrtUpTo :: "nat \<Rightarrow> nat \<Rightarrow> nat" where
  "sqrtUpTo n 0 = 0"
| "sqrtUpTo n (Suc k) = (if Suc k * Suc k \<le> n then Suc k else sqrtUpTo n k)"

definition floorSqrt :: "int \<Rightarrow> int" where
  "floorSqrt n = int (sqrtUpTo (nat n) (nat n))"

definition ceilDiv :: "int \<Rightarrow> int \<Rightarrow> int" where
  "ceilDiv a b = - ((- a) div b)"

definition transparent :: color where
  "transparent = RGBA 0 0 0 0"

text \<open>
  The loop \<open>for i, ch := range hexData\<close>. Up to the first byte that is not ASCII the
  runes are the bytes and \<open>i\<close> counts them; a byte that is not ASCII starts a rune that
  \<open>ParseUint\<close> rejects, as it rejects the byte, and the loop ends there.
\<close>

fun hexLoop :: "image \<Rightarrow> int \<Rightarrow> int \<Rightarrow> string \<Rightarrow> error + image" where
  "hexLoop img width i [] = Inr img"
| "hexLoop img width i (ch # rest) =
     (let x = goRem i width; y = goQuo i width in
      if ch = CHR ''.'' then hexLoop (imgSet img x y transparent) width (i + 1) rest
      else (case ParseUint_16_8 [ch] of
              None \<Rightarrow> Inl (InvalidDigit ch)
            | Some idx \<Rightarrow> hexLoop (imgSet img x y (ZXPalette ! idx)) width (i + 1) rest))"

definition inferWidth :: "int \<Rightarrow> int \<Rightarrow> int" where
  "inferWidth totalLen width =
     (if width = 0 then
        (let sq = floorSqrt totalLen in if sq * sq = totalLen then sq else totalLen)
      else width)"

definition hexToImage :: "world \<Rightarrow> string \<Rightarrow> int \<Rightarrow> error + image" where
  "hexToImage w hexData width0 =
     (let totalLen = int (length hexData) in
      if totalLen = 0 then Inl EmptyInput
      else
        (let width = inferWidth totalLen width0;
             height = ceilDiv totalLen width
         in case NewRGBA w (Rect 0 0 width height) of
              Inl err \<Rightarrow> Inl err
            | Inr img \<Rightarrow> hexLoop img width 0 hexData))"

section \<open>saveImage and main\<close>

text \<open>
  \<open>png.Encode\<close> refuses an image whose width or height is not between 1 and \<open>2^32 - 1\<close>.
\<close>

definition saveImage :: "world \<Rightarrow> image \<Rightarrow> string \<Rightarrow> error option" where
  "saveImage w img filename =
     (if \<not> canCreate w filename then Some CreateError
      else if Dx (bounds img) \<le> 0 \<or> Dy (bounds img) \<le> 0 \<or>
              2 ^ 32 \<le> Dx (bounds img) \<or> 2 ^ 32 \<le> Dy (bounds img) then Some EncodeError
      else None)"

text \<open>\<open>filepath.Ext\<close> and \<open>filepath.Base\<close> with \<open>/\<close> as the path separator.\<close>

fun extFrom :: "string \<Rightarrow> string \<Rightarrow> string" where
  "extFrom [] acc = []"
| "extFrom (c # revPath) acc =
     (if c = CHR ''/'' then []
      else if c = CHR ''.'' then c # acc
      else extFrom revPath (c # acc))"

definition Ext :: "string \<Rightarrow> string" where
  "Ext path = extFrom (rev path) []"

definition Base :: "string \<Rightarrow> string" where
  "Base path =
     (if path = [] then ''.''
      else
        (let p = rev (dropWhile (\<lambda>c. c = CHR ''/'') (rev path)) in
         if p = [] then ''/''
         else rev (takeWhile (\<lambda>c. c \<noteq> CHR ''/'') (rev p))))"

definition TrimSuffix :: "string \<Rightarrow> string \<Rightarrow> string" where
  "TrimSuffix s suffix =
     (if length suffix \<le> length s \<and> drop (length s - length suffix) s = suffix
      then take (length s - length suffix) s else s)"

record flags =
  rawMode :: bool
  widthFlag :: int
  outputFlag :: string
  transpColorFlag :: string
  transpColourFlag :: string
  transpIndexFlag :: int
  args :: "string list"

datatype failure =
    ConvertingImage error
  | CreatingOutputFile
  | WritingToFile
  | ReadingHexFile error
  | ConvertingHexToImage error
  | ConvertingHexStringToImage error
  | SavingImage error
  | UnsupportedFileType
  | WidthRequired

text \<open>
  How a run ends: with the usage text, with one of the error messages and exit status
  1, aborted inside \<open>image.NewRGBA\<close>, or with the text or the image written.
\<close>

datatype outcome =
    Usage
  | Failed failure
  | Aborted error
  | HexWritten string string
  | HexPrinted string
  | ImageSaved string image

definition configOf :: "flags \<Rightarrow> config" where
  "configOf fl =
     \<lparr>transpColorStr =
        (if transpColorFlag fl \<noteq> [] then transpColorFlag fl
         else if transpColourFlag fl \<noteq> [] then transpColourFlag fl
         else []),
      transpIndex = transpIndexFlag fl\<rparr>"

definition imageMode :: "world \<Rightarrow> flags \<Rightarrow> string \<Rightarrow> outcome" where
  "imageMode w fl input =
     (case (if rawMode fl then imageToRawHex (configOf fl) w input
            else imageToHex (configOf fl) w input) of
        Inl err \<Rightarrow> if aborts err then Aborted err else Failed (ConvertingImage err)
      | Inr hexStr \<Rightarrow>
          if outputFlag fl \<noteq> [] then
            (if \<not> canCreate w (outputFlag fl) then Failed CreatingOutputFile
             else if \<not> canWrite w (outputFlag fl) then Failed WritingToFile
             else HexWritten (outputFlag fl) hexStr)
          else HexPrinted hexStr)"

definition textMode :: "world \<Rightarrow> flags \<Rightarrow> string \<Rightarrow> outcome" where
  "textMode w fl input =
     (case readHexFromTextFile w input of
        Inl err \<Rightarrow> Failed (ReadingHexFile err)
      | Inr (hexData, fileWidth, origName) \<Rightarrow>
          (let useWidth = (if widthFlag fl = 0 \<and> fileWidth > 0 then fileWidth
                           else widthFlag fl)
           in case hexToImage w hexData useWidth of
                Inl err \<Rightarrow>
                  if aborts err then Aborted err else Failed (ConvertingHexToImage err)
              | Inr img \<Rightarrow>
                  (let outFile =
                         (if outputFlag fl = [] then
                            (if origName \<noteq> [] then
                               (let base = Base origName
                                in TrimSuffix base (Ext base) @ ''.png'')
                             else ''out.png'')
                          else outputFlag fl)
                   in case saveImage w img outFile of
                        Some err \<Rightarrow> Failed (SavingImage err)
                      | None \<Rightarrow> ImageSaved outFile img)))"

definition directStringMode :: "world \<Rightarrow> flags \<Rightarrow> string \<Rightarrow> outcome" where
  "directStringMode w fl input =
     (if widthFlag fl = 0 then Failed WidthRequired
      else
        (let trimmed = TrimSpace input;
             hexStr = (if HasPrefix trimmed ''0x'' \<or> HasPrefix trimmed ''0X''
                       then drop 2 trimmed else trimmed)
         in case hexToImage w (filterHexString hexStr) (widthFlag fl) of
              Inl err \<Rightarrow>
                if aborts err then Aborted err else Failed (ConvertingHexStringToImage err)
            | Inr img \<Rightarrow>
                (let outFile = (if outputFlag fl = [] then ''out.png'' else outputFlag fl)
                 in case saveImage w img outFile of
                      Some err \<Rightarrow> Failed (SavingImage err)
                    | None \<Rightarrow> ImageSaved outFile img)))"

definition main :: "world \<Rightarrow> flags \<Rightarrow> outcome" where
  "main w fl =
     (case args fl of
        [] \<Rightarrow> Usage
      | input # _ \<Rightarrow>
          (let ext = Ext input in
           if fileExists w input then
             (if lowerEquals ext ''.png'' \<or> lowerEquals ext ''.gif'' \<or> lowerEquals ext ''.bmp''
              then imageMode w fl input
              else if lowerEquals ext ''.txt'' \<or> lowerEquals ext ''.hex''
              then textMode w fl input
              else Failed UnsupportedFileType)
           else directStringMode w fl input))"


section \<open>Notions used to state the properties\<close>

text \<open>
  The squared Euclidean distance in RGB space between a pixel, each 16-bit channel cut
  down to its high byte (\<open>r >> 8\<close>), and palette entry \<open>j\<close>.
\<close>

definition pixelDist :: "32 word \<Rightarrow> 32 word \<Rightarrow> 32 word \<Rightarrow> nat \<Rightarrow> int" where
  "pixelDist r g b j =
     (uint r div 256 - uint (colR (ZXPalette ! j)))\<^sup>2 +
     (uint g div 256 - uint (colG (ZXPalette ! j)))\<^sup>2 +
     (uint b div 256 - uint (colB (ZXPalette ! j)))\<^sup>2"


text \<open>
  A web colour as the claims describe it: after one optional leading \<open>#\<close>, exactly six
  hexadecimal digits. They are read in pairs, the red byte first, then green, then
  blue; a pair is worth 16 times its first digit plus its second. \<open>hexValue\<close> is the
  table of the digits.
\<close>

definition hexValue :: "char \<Rightarrow> nat option" where
  "hexValue c =
     map_of (zip ''0123456789abcdef'' [0 ..< 16] @ zip ''ABCDEF'' [10 ..< 16]) c"

definition validWebColor :: "string \<Rightarrow> bool" where
  "validWebColor s =
     (let t = (if s \<noteq> [] \<and> hd s = CHR ''#'' then tl s else s)
      in length t = 6 \<and> list_all (\<lambda>c. c \<in> set ''0123456789abcdefABCDEF'') t)"

definition webColorValue :: "string \<Rightarrow> (nat \<times> nat \<times> nat) option" where
  "webColorValue s =
     (let t = (if s \<noteq> [] \<and> hd s = CHR ''#'' then tl s else s)
      in if validWebColor s
         then Some (16 * the (hexValue (t ! 0)) + the (hexValue (t ! 1)),
                    16 * the (hexValue (t ! 2)) + the (hexValue (t ! 3)),
                    16 * the (hexValue (t ! 4)) + the (hexValue (t ! 5)))
         else None)"

text \<open>A 16-bit channel of a pixel cut down to 8 bits: its high byte.\<close>

definition highByte :: "32 word \<Rightarrow> nat" where
  "highByte c = unat c div 256 mod 256"


text \<open>
  The colour a character of the stream stands for: the dot is the fully transparent
  pixel, a hexadecimal digit the palette entry at its value, anything else nothing.
\<close>

definition cellColor :: "char \<Rightarrow> color option" where
  "cellColor ch =
     (if ch = CHR ''.'' then Some (RGBA 0 0 0 0)
      else map_option (\<lambda>v. ZXPalette ! v) (hexDigitValue ch))"

text \<open>
  The pixel buffer of an image \<open>w\<close> wide and \<open>h\<close> high, four bytes per pixel, can be
  allocated: its length fits in an \<open>int\<close> and the run time provides that many bytes.
\<close>

definition allocatable :: "world \<Rightarrow> int \<Rightarrow> int \<Rightarrow> bool" where
  "allocatable wd w h = (4 * w * h < 2 ^ 63 \<and> canAllocate wd (4 * w * h))"

text \<open>
  The grid of a stream at a width, once the pixel buffer is there: the loop of
  \<open>hexToImage\<close> run on the zero image.
\<close>

definition hexGrid :: "string \<Rightarrow> int \<Rightarrow> error + image" where
  "hexGrid s w =
     hexLoop (zeroImage (Rect 0 0 (inferWidth (int (length s)) w)
                (ceilDiv (int (length s)) (inferWidth (int (length s)) w))))
       (inferWidth (int (length s)) w) 0 s"

text \<open>Width and height of the image a conversion returned, if it returned one.\<close>

definition imageSize :: "error + image \<Rightarrow> (int \<times> int) option" where
  "imageSize res =
     (case res of
        Inl err \<Rightarrow> None
      | Inr img \<Rightarrow> Some (Dx (bounds img), Dy (bounds img)))"

definition pixelAt :: "error + image \<Rightarrow> int \<Rightarrow> int \<Rightarrow> color option" where
  "pixelAt res x y =
     (case res of
        Inl err \<Rightarrow> None
      | Inr img \<Rightarrow> Some (imgAt img x y))"

text \<open>
  The lines of a text file as \<open>readHexFromTextFile\<close> classifies them. A header line
  starts with \<open>#\<close>; a \<open>file:\<close> header is a header line that starts, in any letter case,
  with \<open># file:\<close>, and its value is what follows its first colon, trimmed. Any other
  line is a content line; processed, it has lost its inline comment, its spaces and its
  tabs. (Every trailing carriage return of a line is removed first.)
\<close>

definition isHeader :: "string \<Rightarrow> bool" where
  "isHeader line = HasPrefix (TrimRightCR line) ''#''"

definition isFileHeader :: "string \<Rightarrow> bool" where
  "isFileHeader line = (isHeader line \<and> lowerHasPrefix (TrimRightCR line) ''# file:'')"

definition fileHeaderValue :: "string \<Rightarrow> string" where
  "fileHeaderValue line =
     TrimSpace (drop 1 (dropWhile (\<lambda>c. c \<noteq> CHR '':'') (TrimRightCR line)))"

definition processed :: "string \<Rightarrow> string" where
  "processed line = filterHexLine (stripInlineComment (TrimRightCR line))"

definition contentLines :: "string list \<Rightarrow> string list" where
  "contentLines ls =
     filter (\<lambda>l. l \<noteq> []) (map processed (filter (\<lambda>l. \<not> isHeader l) ls))"

definition recoveredName :: "string list \<Rightarrow> string" where
  "recoveredName ls =
     (case rev (filter isFileHeader ls) of
        [] \<Rightarrow> []
      | h # _ \<Rightarrow> fileHeaderValue h)"

definition declaredWidth :: "string list \<Rightarrow> int" where
  "declaredWidth ls =
     (case contentLines ls of
        [] \<Rightarrow> 0
      | l # _ \<Rightarrow> int (length l))"

text \<open>
  Worlds and flags for concrete runs: a world in which every path is an existing text
  file of the given content; one in which every path is a PNG file that decodes to the
  given image; one with no files at all; and the flags at their defaults. In all three
  the run time has the memory for every buffer.
\<close>

definition textWorld :: "string \<Rightarrow> world" where
  "textWorld content =
     \<lparr>fileExists = (\<lambda>p. True), readFile = (\<lambda>p. Some content),
      openImage = (\<lambda>p. Inl DecodeFailure), canCreate = (\<lambda>p. True), canWrite = (\<lambda>p. True),
      canAllocate = (\<lambda>n. True)\<rparr>"

definition imageWorld :: "image \<Rightarrow> world" where
  "imageWorld img =
     \<lparr>fileExists = (\<lambda>p. True), readFile = (\<lambda>p. None),
      openImage = (\<lambda>p. Inr (''png'', img)), canCreate = (\<lambda>p. True), canWrite = (\<lambda>p. True),
      canAllocate = (\<lambda>n. True)\<rparr>"

definition emptyWorld :: world where
  "emptyWorld =
     \<lparr>fileExists = (\<lambda>p. False), readFile = (\<lambda>p. None),
      openImage = (\<lambda>p. Inl OpenError), canCreate = (\<lambda>p. True), canWrite = (\<lambda>p. True),
      canAllocate = (\<lambda>n. True)\<rparr>"

definition defaultFlags :: "string list \<Rightarrow> flags" where
  "defaultFlags as =
     \<lparr>rawMode = False, widthFlag = 0, outputFlag = [], transpColorFlag = [],
      transpColourFlag = [], transpIndexFlag = - 1, args = as\<rparr>"

definition defaultConfig :: config where
  "defaultConfig = \<lparr>transpColorStr = [], transpIndex = - 1\<rparr>"

text \<open>
  Direct-string mode in the words of the specification: a leading \<open>0x\<close> or \<open>0X\<close> is
  stripped; what is left is filtered, decoded at the given width and saved. (A run that
  \<open>image.NewRGBA\<close> aborts ends there.)
\<close>

definition stripHexPrefix :: "string \<Rightarrow> string" where
  "stripHexPrefix t =
     (case t of
        c # d # rest \<Rightarrow>
          if c = CHR ''0'' \<and> (d = CHR ''x'' \<or> d = CHR ''X'') then rest else t
      | _ \<Rightarrow> t)"

definition decodeAndSave :: "world \<Rightarrow> flags \<Rightarrow> string \<Rightarrow> outcome" where
  "decodeAndSave w fl stream =
     (case hexToImage w stream (widthFlag fl) of
        Inl err \<Rightarrow> if aborts err then Aborted err else Failed (ConvertingHexStringToImage err)
      | Inr img \<Rightarrow>
          (case saveImage w img (if outputFlag fl = [] then ''out.png'' else outputFlag fl) of
             Some err \<Rightarrow> Failed (SavingImage err)
           | None \<Rightarrow> ImageSaved (if outputFlag fl = [] then ''out.png'' else outputFlag fl) img))"

text \<open>The header block of row mode, and the text of a conversion (empty on an error).\<close>

definition headerBlock :: "string \<Rightarrow> rectangle \<Rightarrow> string" where
  "headerBlock filename r =
     ''# file: '' @ filename @ newline @
     ''# width: '' @ FormatInt (Dx r) 10 @ newline @
     ''# height: '' @ FormatInt (Dy r) 10 @ newline @
     ''# generator: zxtex'' @ newline"

definition outputText :: "error + string \<Rightarrow> string" where
  "outputText res = (case res of Inl err \<Rightarrow> [] | Inr text \<Rightarrow> text)"

text \<open>
  The pixel grid of the specification: a cell is transparent or holds a palette index.
  \<open>quantize\<close> is the cell of a pixel under a transparency configuration, \<open>cellChar\<close>
  the character that encodes a cell, and \<open>render\<close> the colour a cell is drawn in.
\<close>

datatype cell = Transparent | PaletteIndex nat

definition quantize :: "config \<Rightarrow> color \<Rightarrow> cell" where
  "quantize cfg c =
     (case colorRGBA c of
        (r, g, b, a) \<Rightarrow>
          if shouldBeTransparent cfg r g b a then Transparent
          else PaletteIndex (nat (nearestColor r g b)))"

definition hexDigitsUpper :: string where
  "hexDigitsUpper = ''0123456789ABCDEF''"

definition cellChar :: "cell \<Rightarrow> char" where
  "cellChar cl = (case cl of Transparent \<Rightarrow> CHR ''.'' | PaletteIndex k \<Rightarrow> hexDigitsUpper ! k)"

definition render :: "cell \<Rightarrow> color" where
  "render cl = (case cl of Transparent \<Rightarrow> RGBA 0 0 0 0 | PaletteIndex k \<Rightarrow> ZXPalette ! k)"

text \<open>The cells that quantisation produces: an index is below 16 and is not 8.\<close>

definition reachableCell :: "cell \<Rightarrow> bool" where
  "reachableCell cl = (case cl of Transparent \<Rightarrow> True | PaletteIndex k \<Rightarrow> k < 16 \<and> k \<noteq> 8)"

text \<open>An opaque black image of the given width and height, at the origin.\<close>

definition blackImage :: "int \<Rightarrow> int \<Rightarrow> image" where
  "blackImage w h = \<lparr>bounds = Rect 0 0 w h, pix = (\<lambda>p. RGBA 0 0 0 255)\<rparr>"

text \<open>
  The round trip of the specification: encode an image file in row mode, parse the text
  back, and build the grid at the width the parse declares (the width that \<open>main\<close>
  hands to \<open>hexToImage\<close> when no \<open>--width\<close> is given).
\<close>

definition roundTrip :: "config \<Rightarrow> world \<Rightarrow> string \<Rightarrow> error + image" where
  "roundTrip cfg w filename =
     (case imageToHex cfg w filename of
        Inl err \<Rightarrow> Inl err
      | Inr text \<Rightarrow>
          (case parseContent text of
             Inl err \<Rightarrow> Inl err
           | Inr (joined, declared, name) \<Rightarrow> hexToImage w joined declared))"

text \<open>The row lines of the encoding of an image, from top to bottom.\<close>

definition encodedRows :: "config \<Rightarrow> image \<Rightarrow> string list" where
  "encodedRows cfg rgba =
     map (encodeRow cfg rgba) [minY (bounds rgba) .. maxY (bounds rgba) - 1]"

text \<open>The four lines of the header block.\<close>

definition headerLines :: "string \<Rightarrow> rectangle \<Rightarrow> string list" where
  "headerLines filename r =
     [''# file: '' @ filename, ''# width: '' @ FormatInt (Dx r) 10,
      ''# height: '' @ FormatInt (Dy r) 10, ''# generator: zxtex'']"

text \<open>An image of two pixels in one row: opaque bright red, then fully transparent.\<close>

definition twoPixels :: image where
  "twoPixels =
     \<lparr>bounds = Rect 0 0 2 1,
      pix = (\<lambda>p. if p = (0, 0) then RGBA 255 0 0 255 else RGBA 0 0 0 0)\<rparr>"

section \<open>Properties of nearestColor\<close>


lemma nearestLoop_inv:
  "nearestLoop cr cg cb ps i (bi, bd) = (bi', bd') \<Longrightarrow>
     bd' \<le> bd \<and> (\<forall>p \<in> set ps. bd' \<le> sqDist cr cg cb p) \<and>
     ((bi', bd') = (bi, bd) \<or>
      (i \<le> bi' \<and> bi' < i + length ps \<and> sqDist cr cg cb (ps ! (bi' - i)) = bd' \<and> bd' < bd \<and>
       (\<forall>j < bi' - i. bd' < sqDist cr cg cb (ps ! j))))"
proof (induction ps arbitrary: i bi bd)
  case Nil
  then show ?case by simp
next
  case (Cons pal rest)
  let ?d = "sqDist cr cg cb pal"
  show ?case
  proof (cases "?d < bd")
    case True
    with Cons.prems have run: "nearestLoop cr cg cb rest (Suc i) (i, ?d) = (bi', bd')"
      by simp
    from Cons.IH [OF run] have
      le: "bd' \<le> ?d" and all: "\<forall>p \<in> set rest. bd' \<le> sqDist cr cg cb p" and
      alt: "(bi', bd') = (i, ?d) \<or>
        (Suc i \<le> bi' \<and> bi' < Suc i + length rest \<and> sqDist cr cg cb (rest ! (bi' - Suc i)) = bd' \<and> bd' < ?d \<and>
         (\<forall>j < bi' - Suc i. bd' < sqDist cr cg cb (rest ! j)))"
      by blast+
    from alt show ?thesis
    proof
      assume "(bi', bd') = (i, ?d)"
      with True le all show ?thesis by auto
    next
      assume a: "Suc i \<le> bi' \<and> bi' < Suc i + length rest \<and> sqDist cr cg cb (rest ! (bi' - Suc i)) = bd' \<and> bd' < ?d \<and>
         (\<forall>j < bi' - Suc i. bd' < sqDist cr cg cb (rest ! j))"
      then have sub: "bi' - i = Suc (bi' - Suc i)" by arith
      have "\<forall>j < bi' - i. bd' < sqDist cr cg cb ((pal # rest) ! j)"
      proof (intro allI impI)
        fix j assume "j < bi' - i"
        with a sub show "bd' < sqDist cr cg cb ((pal # rest) ! j)"
          by (cases j) auto
      qed
      with a sub True le all show ?thesis by auto
    qed
  next
    case False
    with Cons.prems have run: "nearestLoop cr cg cb rest (Suc i) (bi, bd) = (bi', bd')"
      by simp
    from Cons.IH [OF run] have
      le: "bd' \<le> bd" and all: "\<forall>p \<in> set rest. bd' \<le> sqDist cr cg cb p" and
      alt: "(bi', bd') = (bi, bd) \<or>
        (Suc i \<le> bi' \<and> bi' < Suc i + length rest \<and> sqDist cr cg cb (rest ! (bi' - Suc i)) = bd' \<and> bd' < bd \<and>
         (\<forall>j < bi' - Suc i. bd' < sqDist cr cg cb (rest ! j)))"
      by blast+
    from alt show ?thesis
    proof
      assume "(bi', bd') = (bi, bd)"
      with False le all show ?thesis by auto
    next
      assume a: "Suc i \<le> bi' \<and> bi' < Suc i + length rest \<and> sqDist cr cg cb (rest ! (bi' - Suc i)) = bd' \<and> bd' < bd \<and>
         (\<forall>j < bi' - Suc i. bd' < sqDist cr cg cb (rest ! j))"
      then have sub: "bi' - i = Suc (bi' - Suc i)" by arith
      have "\<forall>j < bi' - i. bd' < sqDist cr cg cb ((pal # rest) ! j)"
      proof (intro allI impI)
        fix j assume "j < bi' - i"
        with a sub False show "bd' < sqDist cr cg cb ((pal # rest) ! j)"
          by (cases j) auto
      qed
      with a sub False le all show ?thesis by auto
    qed
  qed
qed

lemma channel_eq: "uint (drop_bit 8 (r :: 32 word)) = uint r div 256"
  by (simp add: drop_bit_eq_div uint_div)

lemma channel_bound: "0 \<le> uint (r :: 32 word) div 256 \<and> uint r div 256 < 2 ^ 24"
proof -
  define u where "u = uint r"
  have "0 \<le> u" "u < 4294967296"
    using uint_bounded [of r] by (simp_all add: u_def)
  then have "0 \<le> u div 256 \<and> u div 256 < 16777216" by arith
  then show ?thesis by (simp add: u_def)
qed

lemma sq_bound: "\<bar>x :: int\<bar> < 2 ^ 24 \<Longrightarrow> x * x < 2 ^ 48"
proof -
  assume a: "\<bar>x\<bar> < 2 ^ 24"
  have "x * x = \<bar>x\<bar> * \<bar>x\<bar>" by (simp add: abs_mult_self_eq)
  also have "\<dots> < 2 ^ 24 * 2 ^ 24"
    using a by (intro mult_strict_mono') auto
  finally show ?thesis by simp
qed

lemma diff_bound:
  fixes c :: int and p :: "8 word"
  assumes "0 \<le> c" "c < 2 ^ 24"
  shows "\<bar>c - uint p\<bar> < 2 ^ 24"
proof -
  define u where "u = uint p"
  have "0 \<le> u" "u < 256"
    using uint_bounded [of p] by (simp_all add: u_def)
  with assms show ?thesis unfolding u_def [symmetric] by simp
qed

lemma sqDist_below_MaxFloat64:
  assumes "0 \<le> cr" "cr < 2 ^ 24" "0 \<le> cg" "cg < 2 ^ 24" "0 \<le> cb" "cb < 2 ^ 24"
  shows "sqDist cr cg cb pal < MaxFloat64"
proof -
  have 1: "(cr - uint (colR pal)) * (cr - uint (colR pal)) < 2 ^ 48"
    using assms by (intro sq_bound diff_bound)
  have 2: "(cg - uint (colG pal)) * (cg - uint (colG pal)) < 2 ^ 48"
    using assms by (intro sq_bound diff_bound)
  have 3: "(cb - uint (colB pal)) * (cb - uint (colB pal)) < 2 ^ 48"
    using assms by (intro sq_bound diff_bound)
  have "(3 * 2 ^ 48 :: int) < MaxFloat64" by (simp add: MaxFloat64_def)
  with 1 2 3 show ?thesis by (simp add: sqDist_def Let_def)
qed

lemma pixelDist_sqDist:
  "pixelDist r g b j =
     sqDist (uint (drop_bit 8 r)) (uint (drop_bit 8 g)) (uint (drop_bit 8 b)) (ZXPalette ! j)"
  by (simp only: pixelDist_def sqDist_def Let_def channel_eq power2_eq_square)

lemma length_ZXPalette: "length ZXPalette = 16"
  by (simp add: ZXPalette_def)

text \<open>What the loop returns, in terms of the index alone.\<close>

lemma nearestColor_index:
  obtains k where "nearestColor r g b = int k" and "k < 16"
    and "\<forall>j<16. pixelDist r g b k \<le> pixelDist r g b j"
    and "\<forall>j<k. pixelDist r g b k < pixelDist r g b j"
proof -
  let ?cr = "uint (drop_bit 8 r)" and ?cg = "uint (drop_bit 8 g)" and ?cb = "uint (drop_bit 8 b)"
  obtain k d where run: "nearestLoop ?cr ?cg ?cb ZXPalette 0 (0, MaxFloat64) = (k, d)"
    by (cases "nearestLoop ?cr ?cg ?cb ZXPalette 0 (0, MaxFloat64)")
  have nc: "nearestColor r g b = int k"
    by (simp add: nearestColor_def Let_def run)
  note inv = nearestLoop_inv [OF run]
  have below: "sqDist ?cr ?cg ?cb p < MaxFloat64" for p
    using channel_bound [of r] channel_bound [of g] channel_bound [of b]
    by (intro sqDist_below_MaxFloat64) (simp_all add: channel_eq)
  have first: "ZXPalette ! 0 \<in> set ZXPalette"
    by (rule nth_mem) (simp add: length_ZXPalette)
  have "(k, d) \<noteq> (0, MaxFloat64)"
  proof
    assume "(k, d) = (0, MaxFloat64)"
    with inv first have "MaxFloat64 \<le> sqDist ?cr ?cg ?cb (ZXPalette ! 0)" by auto
    with below [of "ZXPalette ! 0"] show False by simp
  qed
  with inv have k: "k < 16" and dk: "sqDist ?cr ?cg ?cb (ZXPalette ! k) = d"
    and before: "\<forall>j<k. d < sqDist ?cr ?cg ?cb (ZXPalette ! j)"
    and all: "\<forall>p \<in> set ZXPalette. d \<le> sqDist ?cr ?cg ?cb p"
    by (auto simp: length_ZXPalette)
  have "\<forall>j<16. pixelDist r g b k \<le> pixelDist r g b j"
  proof (intro allI impI)
    fix j :: nat assume "j < 16"
    then have "ZXPalette ! j \<in> set ZXPalette" by (intro nth_mem) (simp add: length_ZXPalette)
    with all dk show "pixelDist r g b k \<le> pixelDist r g b j"
      by (simp add: pixelDist_sqDist)
  qed
  moreover have "\<forall>j<k. pixelDist r g b k < pixelDist r g b j"
    using before dk by (simp add: pixelDist_sqDist)
  ultimately show thesis using that nc k by blast
qed

text \<open>
  Claim C3. For every input, \<open>nearestColor\<close> returns an index between 0 and 15 whose
  palette entry is at minimal squared Euclidean RGB distance from the pixel (there is no
  alpha argument, and each channel enters as \<open>r >> 8\<close>, the high byte of a 16-bit
  channel); every entry before the returned one is strictly farther, so ties go to the
  first occurrence in palette order; and a pixel that has the entry at index 0 (and so
  its duplicate at index 8) among its nearest resolves to index 0.
\<close>

theorem nearestColor_minimal_first:
  "0 \<le> nearestColor r g b \<and> nearestColor r g b \<le> 15 \<and>
   (\<forall>j<16. pixelDist r g b (nat (nearestColor r g b)) \<le> pixelDist r g b j) \<and>
   (\<forall>j. int j < nearestColor r g b \<longrightarrow>
          pixelDist r g b (nat (nearestColor r g b)) < pixelDist r g b j) \<and>
   ((\<forall>j<16. pixelDist r g b 0 \<le> pixelDist r g b j) \<longrightarrow> nearestColor r g b = 0)"
proof -
  obtain k where nc: "nearestColor r g b = int k" and k: "k < 16"
    and le: "\<forall>j<16. pixelDist r g b k \<le> pixelDist r g b j"
    and lt: "\<forall>j<k. pixelDist r g b k < pixelDist r g b j"
    by (rule nearestColor_index)
  have "k = 0" if "\<forall>j<16. pixelDist r g b 0 \<le> pixelDist r g b j"
  proof (rule ccontr)
    assume "k \<noteq> 0"
    then have "pixelDist r g b k < pixelDist r g b 0" using lt by simp
    moreover have "pixelDist r g b 0 \<le> pixelDist r g b k" using that k by simp
    ultimately show False by simp
  qed
  with nc k le lt show ?thesis by auto
qed

lemma all_less_16:
  "(\<forall>j<16::nat. P j) = (P 0 \<and> P 1 \<and> P 2 \<and> P 3 \<and> P 4 \<and> P 5 \<and> P 6 \<and> P 7 \<and> P 8 \<and> P 9 \<and>
     P 10 \<and> P 11 \<and> P 12 \<and> P 13 \<and> P 14 \<and> P 15)"
proof -
  have "(16::nat) = Suc (Suc (Suc (Suc (Suc (Suc (Suc (Suc (Suc (Suc (Suc (Suc (Suc (Suc (Suc (Suc 0)))))))))))))))"
    by simp
  then show ?thesis
    by (simp only: All_less_Suc) (auto simp: eval_nat_numeral)
qed

text \<open>The black pixel: entry 0 is nearest, and 0 is returned.\<close>

theorem nearestColor_minimal_first_witness:
  "nearestColor 0 0 0 = 0 \<and> pixelDist 0 0 0 0 = 0 \<and> pixelDist 0 0 0 15 = 195075"
proof -
  have "\<forall>j<16. pixelDist 0 0 0 0 \<le> pixelDist 0 0 0 j"
    by (simp add: all_less_16 pixelDist_def ZXPalette_def)
  with nearestColor_minimal_first [of 0 0 0] have "nearestColor 0 0 0 = 0" by blast
  then show ?thesis by (simp add: pixelDist_def ZXPalette_def)
qed

lemma palette_0_8: "ZXPalette ! 8 = ZXPalette ! 0"
  by (simp add: ZXPalette_def)

lemma nearestColor_not_8: "nearestColor r g b \<noteq> 8"
proof
  assume eq: "nearestColor r g b = 8"
  obtain k where nc: "nearestColor r g b = int k"
    and lt: "\<forall>j<k. pixelDist r g b k < pixelDist r g b j"
    by (rule nearestColor_index)
  from eq nc have "k = 8" by simp
  with lt have "pixelDist r g b 8 < pixelDist r g b 0" by simp
  then show False by (simp add: pixelDist_def palette_0_8)
qed

section \<open>Properties of parseWebColor and shouldBeTransparent\<close>
lemma hexDigitValue_less: "hexDigitValue c = Some d \<Longrightarrow> d < 16"
  by (auto simp: hexDigitValue_def Let_def split: if_splits)

lemma ParseUint_pair:
  "ParseUint_16_8 [c, d] =
     (case (hexDigitValue c, hexDigitValue d) of
        (Some x, Some y) \<Rightarrow> Some (x * 16 + y)
      | _ \<Rightarrow> None)"
proof (cases "hexDigitValue c")
  case None
  then show ?thesis by (simp add: ParseUint_16_8_def)
next
  case (Some x)
  note x = this
  show ?thesis
  proof (cases "hexDigitValue d")
    case None
    with x show ?thesis by (simp add: ParseUint_16_8_def)
  next
    case (Some y)
    from hexDigitValue_less [OF x] hexDigitValue_less [OF Some]
    have "x * 16 + y \<le> 255" by arith
    with x Some show ?thesis by (simp add: ParseUint_16_8_def)
  qed
qed

lemma ParseUint_single:
  "ParseUint_16_8 [c] = hexDigitValue c"
proof (cases "hexDigitValue c")
  case None
  then show ?thesis by (simp add: ParseUint_16_8_def)
next
  case (Some x)
  with hexDigitValue_less [OF Some] show ?thesis by (simp add: ParseUint_16_8_def)
qed

lemma TrimPrefix_hash:
  "TrimPrefix s ''#'' = (if s \<noteq> [] \<and> hd s = CHR ''#'' then tl s else s)"
  by (cases s) (auto simp: TrimPrefix_def HasPrefix_def)

lemma length_6_cases:
  assumes "length t = 6"
  obtains c0 c1 c2 c3 c4 c5 where "t = [c0, c1, c2, c3, c4, c5]"
proof -
  from assms obtain c0 t1 where "t = c0 # t1" "length t1 = 5" by (cases t) auto
  moreover then obtain c1 t2 where "t1 = c1 # t2" "length t2 = 4" by (cases t1) auto
  moreover then obtain c2 t3 where "t2 = c2 # t3" "length t3 = 3" by (cases t2) auto
  moreover then obtain c3 t4 where "t3 = c3 # t4" "length t4 = 2" by (cases t3) auto
  moreover then obtain c4 t5 where "t4 = c4 # t5" "length t5 = 1" by (cases t4) auto
  moreover then obtain c5 where "t5 = [c5]" by (cases t5) auto
  ultimately show thesis using that by blast
qed

text \<open>The table of the digits is the digit test of the library.\<close>

lemma hexValue_all:
  "\<forall>c. hexValue c = hexDigitValue c \<and>
       (hexDigitValue c \<noteq> None \<longleftrightarrow> c \<in> set ''0123456789abcdefABCDEF'')"
  by code_simp

lemma hexValue_eq: "hexValue c = hexDigitValue c"
  using hexValue_all by blast

lemma hexDigit_alphabet: "c \<in> set ''0123456789abcdefABCDEF'' \<longleftrightarrow> hexDigitValue c \<noteq> None"
  using hexValue_all by blast

lemma validWebColor_digits:
  "validWebColor s \<longleftrightarrow>
     length (TrimPrefix s ''#'') = 6 \<and>
     list_all (\<lambda>c. hexDigitValue c \<noteq> None) (TrimPrefix s ''#'')"
proof -
  have "list_all (\<lambda>c. c \<in> set ''0123456789abcdefABCDEF'') t =
        list_all (\<lambda>c. hexDigitValue c \<noteq> None) t" for t
    by (simp only: hexDigit_alphabet)
  then show ?thesis
    by (simp only: validWebColor_def Let_def TrimPrefix_hash)
qed

text \<open>What \<open>parseWebColor\<close> answers, in terms of the web colour of the claims.\<close>

lemma parseWebColor_value:
  "parseWebColor s =
     (case webColorValue s of
        None \<Rightarrow> Inl InvalidWebColor
      | Some (R, G, B) \<Rightarrow> Inr (RGBA (of_nat R) (of_nat G) (of_nat B) 255))"
proof -
  let ?t = "TrimPrefix s ''#''"
  have wv: "webColorValue s =
      (if validWebColor s
       then Some (16 * the (hexDigitValue (?t ! 0)) + the (hexDigitValue (?t ! 1)),
                  16 * the (hexDigitValue (?t ! 2)) + the (hexDigitValue (?t ! 3)),
                  16 * the (hexDigitValue (?t ! 4)) + the (hexDigitValue (?t ! 5)))
       else None)"
    by (simp only: webColorValue_def Let_def TrimPrefix_hash hexValue_eq)
  show ?thesis
  proof (cases "length ?t = 6")
    case False
    then have "\<not> validWebColor s" by (simp add: validWebColor_digits)
    with False show ?thesis by (simp add: wv parseWebColor_def Let_def)
  next
    case True
    then obtain c0 c1 c2 c3 c4 c5 where t: "?t = [c0, c1, c2, c3, c4, c5]"
      by (rule length_6_cases)
    have v: "validWebColor s \<longleftrightarrow>
        hexDigitValue c0 \<noteq> None \<and> hexDigitValue c1 \<noteq> None \<and> hexDigitValue c2 \<noteq> None \<and>
        hexDigitValue c3 \<noteq> None \<and> hexDigitValue c4 \<noteq> None \<and> hexDigitValue c5 \<noteq> None"
      by (simp add: validWebColor_digits t)
    have p: "parseWebColor s =
       (case ParseUint_16_8 [c0, c1] of
          None \<Rightarrow> Inl InvalidWebColor
        | Some r \<Rightarrow>
           (case ParseUint_16_8 [c2, c3] of
              None \<Rightarrow> Inl InvalidWebColor
            | Some g \<Rightarrow>
               (case ParseUint_16_8 [c4, c5] of
                  None \<Rightarrow> Inl InvalidWebColor
                | Some b \<Rightarrow> Inr (RGBA (of_nat r) (of_nat g) (of_nat b) 255))))"
      by (simp add: parseWebColor_def Let_def t eval_nat_numeral cong: option.case_cong)
    show ?thesis
    proof (cases "validWebColor s")
      case False
      with v show ?thesis
        by (auto simp: p wv ParseUint_pair split: option.splits)
    next
      case True
      with v obtain d0 d1 d2 d3 d4 d5 where
        d: "hexDigitValue c0 = Some d0" "hexDigitValue c1 = Some d1"
           "hexDigitValue c2 = Some d2" "hexDigitValue c3 = Some d3"
           "hexDigitValue c4 = Some d4" "hexDigitValue c5 = Some d5"
        by auto
      with True show ?thesis
        by (simp add: p wv t ParseUint_pair mult.commute)
    qed
  qed
qed

lemma webColorValue_bytes:
  assumes "webColorValue s = Some (R, G, B)"
  shows "R < 256" and "G < 256" and "B < 256"
proof -
  let ?t = "TrimPrefix s ''#''"
  from assms have valid: "validWebColor s"
    by (simp add: webColorValue_def Let_def split: if_splits)
  then have len: "length ?t = 6" and dig: "list_all (\<lambda>c. hexDigitValue c \<noteq> None) ?t"
    by (simp_all add: validWebColor_digits)
  from len obtain c0 c1 c2 c3 c4 c5 where t: "?t = [c0, c1, c2, c3, c4, c5]"
    by (rule length_6_cases)
  with dig obtain d0 d1 d2 d3 d4 d5 where
    d: "hexDigitValue c0 = Some d0" "hexDigitValue c1 = Some d1"
       "hexDigitValue c2 = Some d2" "hexDigitValue c3 = Some d3"
       "hexDigitValue c4 = Some d4" "hexDigitValue c5 = Some d5"
    by auto
  have lt: "d0 < 16" "d1 < 16" "d2 < 16" "d3 < 16" "d4 < 16" "d5 < 16"
    using d by (auto intro: hexDigitValue_less)
  have "webColorValue s = Some (16 * d0 + d1, 16 * d2 + d3, 16 * d4 + d5)"
    using valid d t
    by (simp add: webColorValue_def Let_def TrimPrefix_hash [symmetric] hexValue_eq)
  with assms have "R = 16 * d0 + d1" "G = 16 * d2 + d3" "B = 16 * d4 + d5" by simp_all
  with lt show "R < 256" and "G < 256" and "B < 256" by simp_all
qed

text \<open>The comparison \<open>uint8(r >> 8) == tcol.R\<close>, on numbers.\<close>

lemma highByte_eq:
  assumes "R < 256"
  shows "(ucast (drop_bit 8 c) :: 8 word) = of_nat R \<longleftrightarrow> highByte c = R"
proof -
  have "unat (ucast (drop_bit 8 c) :: 8 word) = highByte c"
    by (simp add: highByte_def unsigned_ucast_eq take_bit_eq_mod drop_bit_eq_div unat_div)
  moreover have "unat (of_nat R :: 8 word) = R"
    using assms by (simp add: unat_of_nat)
  ultimately show ?thesis by (metis word_unat_eq_iff)
qed

text \<open>
  Claim C4. \<open>shouldBeTransparent\<close> is true exactly when the alpha channel is zero, or a
  transparency colour is configured, is a valid web colour (six hexadecimal digits
  after one optional \<open>#\<close>) and its red, green and blue bytes, read from the digits, are
  the high bytes of the pixel's channels, or a transparency index of at least 0 is
  configured and \<open>nearestColor\<close> of the pixel equals it. A configured string that is not
  a valid web colour raises no error: the other two conditions alone decide.
  \<open>parseWebColor\<close> itself answers the colour of those three bytes, opaque, on a valid
  web colour and an error on any other string.
\<close>

theorem shouldBeTransparent_iff:
  "(shouldBeTransparent cfg r g b a \<longleftrightarrow>
      a = 0 \<or>
      (transpColorStr cfg \<noteq> [] \<and> validWebColor (transpColorStr cfg) \<and>
       webColorValue (transpColorStr cfg) = Some (highByte r, highByte g, highByte b)) \<or>
      (0 \<le> transpIndex cfg \<and> nearestColor r g b = transpIndex cfg)) \<and>
   (\<not> validWebColor (transpColorStr cfg) \<longrightarrow>
      (shouldBeTransparent cfg r g b a \<longleftrightarrow>
         a = 0 \<or> (0 \<le> transpIndex cfg \<and> nearestColor r g b = transpIndex cfg))) \<and>
   (validWebColor s \<longrightarrow>
      (\<exists>R G B. webColorValue s = Some (R, G, B) \<and> R < 256 \<and> G < 256 \<and> B < 256 \<and>
                parseWebColor s = Inr (RGBA (of_nat R) (of_nat G) (of_nat B) 255))) \<and>
   (\<not> validWebColor s \<longrightarrow> webColorValue s = None \<and> parseWebColor s = Inl InvalidWebColor)"
proof -
  let ?s = "transpColorStr cfg"
  have valid: "\<exists>R G B. webColorValue s = Some (R, G, B) \<and> R < 256 \<and> G < 256 \<and> B < 256 \<and>
                parseWebColor s = Inr (RGBA (of_nat R) (of_nat G) (of_nat B) 255)"
    if "validWebColor s" for s
  proof -
    from that obtain R G B where w: "webColorValue s = Some (R, G, B)"
      by (simp add: webColorValue_def Let_def)
    from webColorValue_bytes [OF w] w show ?thesis
      by (simp add: parseWebColor_value)
  qed
  have invalid: "webColorValue s = None \<and> parseWebColor s = Inl InvalidWebColor"
    if "\<not> validWebColor s" for s
  proof -
    from that have "webColorValue s = None" by (simp add: webColorValue_def Let_def)
    then show ?thesis by (simp add: parseWebColor_value)
  qed
  have match: "(case parseWebColor ?s of
                  Inl err \<Rightarrow> False
                | Inr tcol \<Rightarrow>
                    (ucast (drop_bit 8 r) :: 8 word) = colR tcol \<and>
                    (ucast (drop_bit 8 g) :: 8 word) = colG tcol \<and>
                    (ucast (drop_bit 8 b) :: 8 word) = colB tcol) \<longleftrightarrow>
               validWebColor ?s \<and>
               webColorValue ?s = Some (highByte r, highByte g, highByte b)"
  proof (cases "validWebColor ?s")
    case False
    from invalid [OF this] False show ?thesis by simp
  next
    case True
    from valid [OF this] obtain R G B where w: "webColorValue ?s = Some (R, G, B)"
      and lt: "R < 256" "G < 256" "B < 256"
      and p: "parseWebColor ?s = Inr (RGBA (of_nat R) (of_nat G) (of_nat B) 255)"
      by blast
    from True show ?thesis
      by (auto simp: p w highByte_eq [OF lt(1)] highByte_eq [OF lt(2)] highByte_eq [OF lt(3)])
  qed
  have 1: "shouldBeTransparent cfg r g b a \<longleftrightarrow>
      a = 0 \<or>
      (?s \<noteq> [] \<and> validWebColor ?s \<and>
       webColorValue ?s = Some (highByte r, highByte g, highByte b)) \<or>
      (0 \<le> transpIndex cfg \<and> nearestColor r g b = transpIndex cfg)"
    unfolding shouldBeTransparent_def match by auto
  have 2: "\<not> validWebColor ?s \<longrightarrow>
      (shouldBeTransparent cfg r g b a \<longleftrightarrow>
         a = 0 \<or> (0 \<le> transpIndex cfg \<and> nearestColor r g b = transpIndex cfg))"
    using 1 by blast
  have 3: "validWebColor s \<longrightarrow>
      (\<exists>R G B. webColorValue s = Some (R, G, B) \<and> R < 256 \<and> G < 256 \<and> B < 256 \<and>
                parseWebColor s = Inr (RGBA (of_nat R) (of_nat G) (of_nat B) 255))"
    using valid by blast
  have 4: "\<not> validWebColor s \<longrightarrow> webColorValue s = None \<and> parseWebColor s = Inl InvalidWebColor"
    using invalid by blast
  show ?thesis by (rule conjI [OF 1 conjI [OF 2 conjI [OF 3 4]]])
qed

lemma web_examples:
  "validWebColor ''#FF00FF''" "webColorValue ''#FF00FF'' = Some (255, 0, 255)"
  "validWebColor ''#000000''" "webColorValue ''#000000'' = Some (0, 0, 0)"
  "validWebColor ''1a2B3c''" "webColorValue ''1a2B3c'' = Some (26, 43, 60)"
  "\<not> validWebColor ''#12345G''"
  by code_simp+

lemma highByte_examples: "highByte 0xFFFF = 255" "highByte 0 = 0" "highByte 0xD7D7 = 215"
  by (simp_all add: highByte_def)

lemma nc1: "nearestColor 0xD7D7 0 0 = 2"
  by (simp add: nearestColor_def ZXPalette_def sqDist_def MaxFloat64_def Let_def drop_bit_eq_div)

text \<open>
  A magenta pixel under magenta and under black as the transparent colour; a malformed
  colour with and without a transparency index, on an opaque normal-red pixel; and the
  colour of a string without \<open>#\<close>.
\<close>

theorem shouldBeTransparent_iff_witness:
  "shouldBeTransparent \<lparr>transpColorStr = ''#FF00FF'', transpIndex = - 1\<rparr> 0xFFFF 0 0xFFFF 0xFFFF \<and>
   \<not> shouldBeTransparent \<lparr>transpColorStr = ''#000000'', transpIndex = - 1\<rparr> 0xFFFF 0 0xFFFF 0xFFFF \<and>
   shouldBeTransparent \<lparr>transpColorStr = ''#12345G'', transpIndex = 2\<rparr> 0xD7D7 0 0 0xFFFF \<and>
   \<not> shouldBeTransparent \<lparr>transpColorStr = ''#12345G'', transpIndex = - 1\<rparr> 0xD7D7 0 0 0xFFFF \<and>
   parseWebColor ''1a2B3c'' = Inr (RGBA 26 43 60 255) \<and>
   parseWebColor ''#12345G'' = Inl InvalidWebColor"
proof -
  note a = shouldBeTransparent_iff [of "\<lparr>transpColorStr = ''#FF00FF'', transpIndex = - 1\<rparr>"
      "0xFFFF" 0 "0xFFFF" "0xFFFF" "''1a2B3c''"]
  note b = shouldBeTransparent_iff [of "\<lparr>transpColorStr = ''#000000'', transpIndex = - 1\<rparr>"
      "0xFFFF" 0 "0xFFFF" "0xFFFF" "''#12345G''"]
  note c = shouldBeTransparent_iff [of "\<lparr>transpColorStr = ''#12345G'', transpIndex = 2\<rparr>"
      "0xD7D7" 0 0 "0xFFFF" "[]"]
  note d = shouldBeTransparent_iff [of "\<lparr>transpColorStr = ''#12345G'', transpIndex = - 1\<rparr>"
      "0xD7D7" 0 0 "0xFFFF" "[]"]
  have 1: "shouldBeTransparent \<lparr>transpColorStr = ''#FF00FF'', transpIndex = - 1\<rparr>
             0xFFFF 0 0xFFFF 0xFFFF"
    using a [THEN conjunct1] by (simp add: web_examples highByte_examples)
  have 2: "\<not> shouldBeTransparent \<lparr>transpColorStr = ''#000000'', transpIndex = - 1\<rparr>
             0xFFFF 0 0xFFFF 0xFFFF"
    using b [THEN conjunct1] by (simp add: web_examples highByte_examples)
  have 3: "shouldBeTransparent \<lparr>transpColorStr = ''#12345G'', transpIndex = 2\<rparr> 0xD7D7 0 0 0xFFFF"
    using c [THEN conjunct1] by (simp add: web_examples nc1)
  have 4: "\<not> shouldBeTransparent \<lparr>transpColorStr = ''#12345G'', transpIndex = - 1\<rparr>
             0xD7D7 0 0 0xFFFF"
    using d [THEN conjunct1] by (simp add: web_examples)
  have 5: "parseWebColor ''1a2B3c'' = Inr (RGBA 26 43 60 255)"
    using a [THEN conjunct2, THEN conjunct2, THEN conjunct1] by (simp add: web_examples)
  have 6: "parseWebColor ''#12345G'' = Inl InvalidWebColor"
    using b [THEN conjunct2, THEN conjunct2, THEN conjunct2] by (simp add: web_examples)
  from 1 2 3 4 5 6 show ?thesis by blast
qed

section \<open>The loop of hexToImage\<close>

lemma keepChar_cellColor: "keepChar c \<longleftrightarrow> cellColor c \<noteq> None"
  by (auto simp: keepChar_def cellColor_def isHexDigit_def)

lemma bounds_imgSet [simp]: "bounds (imgSet img x y c) = bounds img"
  by (simp add: imgSet_def)

lemma imgAt_imgSet:
  "imgAt (imgSet img x y c) x' y' =
     (if x' = x \<and> y' = y \<and> pointIn x y (bounds img) then c else imgAt img x' y')"
  by (auto simp: imgAt_def imgSet_def)

text \<open>One step of the loop, for a character of the alphabet.\<close>

lemma hexLoop_Cons_keep:
  assumes "cellColor ch = Some col"
  shows "hexLoop img w i (ch # rest) =
           hexLoop (imgSet img (goRem i w) (goQuo i w) col) w (i + 1) rest"
proof (cases "ch = CHR ''.''")
  case True
  with assms show ?thesis by (simp add: cellColor_def transparent_def Let_def)
next
  case False
  with assms obtain v where v: "hexDigitValue ch = Some v" and col: "col = ZXPalette ! v"
    by (auto simp: cellColor_def)
  from v have "v < 16" by (rule hexDigitValue_less)
  with v have "ParseUint_16_8 [ch] = Some v" by (simp add: ParseUint_single)
  with False col show ?thesis by (simp add: Let_def)
qed

lemma hexLoop_Cons_bad:
  assumes "cellColor ch = None"
  shows "hexLoop img w i (ch # rest) = Inl (InvalidDigit ch)"
proof -
  from assms have "ch \<noteq> CHR ''.''" and "hexDigitValue ch = None"
    by (auto simp: cellColor_def split: if_splits)
  then show ?thesis by (simp add: ParseUint_single Let_def)
qed

declare hexLoop.simps(2) [simp del]

lemma hexLoop_total:
  "list_all keepChar s \<Longrightarrow> \<exists>img'. hexLoop img w i s = Inr img'"
proof (induction s arbitrary: img i)
  case Nil
  then show ?case by simp
next
  case (Cons ch rest)
  then obtain col where "cellColor ch = Some col"
    by (auto simp: keepChar_cellColor)
  with Cons show ?case by (simp add: hexLoop_Cons_keep)
qed

lemma hexLoop_fails:
  "\<not> list_all keepChar s \<Longrightarrow>
     hexLoop img w i s = Inl (InvalidDigit (hd (filter (\<lambda>c. \<not> keepChar c) s)))"
proof (induction s arbitrary: img i)
  case Nil
  then show ?case by simp
next
  case (Cons ch rest)
  show ?case
  proof (cases "cellColor ch")
    case None
    then show ?thesis by (simp add: hexLoop_Cons_bad keepChar_cellColor)
  next
    case (Some col)
    then have keep: "keepChar ch" by (simp add: keepChar_cellColor)
    with Cons.prems have "\<not> list_all keepChar rest" by simp
    from Cons.IH [OF this] Some keep show ?thesis by (simp add: hexLoop_Cons_keep)
  qed
qed

lemma hexLoop_bounds:
  "hexLoop img w i s = Inr img' \<Longrightarrow> bounds img' = bounds img"
proof (induction s arbitrary: img i)
  case Nil
  then show ?case by simp
next
  case (Cons ch rest)
  show ?case
  proof (cases "cellColor ch")
    case None
    with Cons.prems show ?thesis by (simp add: hexLoop_Cons_bad)
  next
    case (Some col)
    with Cons.prems Cons.IH show ?thesis by (simp add: hexLoop_Cons_keep)
  qed
qed

lemma go_decompose: "a = goRem a w + w * goQuo a w"
  by (simp add: goRem_def)

lemma hexLoop_untouched:
  "hexLoop img w i s = Inr img' \<Longrightarrow>
   (\<forall>k<length s. \<not> (goRem (i + int k) w = x \<and> goQuo (i + int k) w = y)) \<Longrightarrow>
   imgAt img' x y = imgAt img x y"
proof (induction s arbitrary: img i)
  case Nil
  then show ?case by simp
next
  case (Cons ch rest)
  show ?case
  proof (cases "cellColor ch")
    case None
    with Cons.prems show ?thesis by (simp add: hexLoop_Cons_bad)
  next
    case (Some col)
    with Cons.prems have run:
      "hexLoop (imgSet img (goRem i w) (goQuo i w) col) w (i + 1) rest = Inr img'"
      by (simp add: hexLoop_Cons_keep)
    have later: "\<forall>k<length rest. \<not> (goRem (i + 1 + int k) w = x \<and> goQuo (i + 1 + int k) w = y)"
    proof (intro allI impI)
      fix k assume "k < length rest"
      then have "Suc k < length (ch # rest)" by simp
      with Cons.prems(2) have "\<not> (goRem (i + int (Suc k)) w = x \<and> goQuo (i + int (Suc k)) w = y)"
        by blast
      then show "\<not> (goRem (i + 1 + int k) w = x \<and> goQuo (i + 1 + int k) w = y)"
        by (simp add: add.assoc)
    qed
    from Cons.prems(2) have here: "\<not> (goRem i w = x \<and> goQuo i w = y)"
      by (auto dest: spec [of _ 0])
    from Cons.IH [OF run later] here show ?thesis
      by (auto simp: imgAt_imgSet)
  qed
qed

lemma hexLoop_written:
  "hexLoop img w i s = Inr img' \<Longrightarrow> k < length s \<Longrightarrow>
   pointIn (goRem (i + int k) w) (goQuo (i + int k) w) (bounds img) \<Longrightarrow>
   Some (imgAt img' (goRem (i + int k) w) (goQuo (i + int k) w)) = cellColor (s ! k)"
proof (induction s arbitrary: img i k)
  case Nil
  then show ?case by simp
next
  case (Cons ch rest)
  show ?case
  proof (cases "cellColor ch")
    case None
    with Cons.prems show ?thesis by (simp add: hexLoop_Cons_bad)
  next
    case (Some col)
    with Cons.prems have run:
      "hexLoop (imgSet img (goRem i w) (goQuo i w) col) w (i + 1) rest = Inr img'"
      by (simp add: hexLoop_Cons_keep)
    show ?thesis
    proof (cases k)
      case 0
      have "\<forall>j<length rest. \<not> (goRem (i + 1 + int j) w = goRem i w \<and>
                                  goQuo (i + 1 + int j) w = goQuo i w)"
      proof (intro allI impI notI)
        fix j assume "goRem (i + 1 + int j) w = goRem i w \<and> goQuo (i + 1 + int j) w = goQuo i w"
        with go_decompose [of "i + 1 + int j" w] go_decompose [of i w]
        have "i + 1 + int j = i" by simp
        then show False by simp
      qed
      from hexLoop_untouched [OF run this] 0 Some Cons.prems(3) show ?thesis
        by (simp add: imgAt_imgSet)
    next
      case (Suc k')
      with Cons.prems have k': "k' < length rest" by simp
      have idx: "i + int k = i + 1 + int k'" using Suc by simp
      from Cons.prems(3) have
        "pointIn (goRem (i + 1 + int k') w) (goQuo (i + 1 + int k') w)
           (bounds (imgSet img (goRem i w) (goQuo i w) col))"
        by (simp add: idx)
      from Cons.IH [OF run k' this]
      have "Some (imgAt img' (goRem (i + int k) w) (goQuo (i + int k) w)) = cellColor (rest ! k')"
        by (simp only: idx)
      then show ?thesis by (simp only: Suc nth_Cons_Suc)
    qed
  qed
qed

lemma goQuo_pos: "0 \<le> a \<Longrightarrow> 0 < w \<Longrightarrow> goQuo a w = a div w"
  by (cases "a = 0") (simp_all add: goQuo_def)

lemma goRem_pos: "0 \<le> a \<Longrightarrow> 0 < w \<Longrightarrow> goRem a w = a mod w"
  by (simp add: goRem_def goQuo_pos minus_mult_div_eq_mod)

section \<open>The grid on a positive width\<close>

lemma sqrtUpTo_spec:
  "sqrtUpTo n b \<le> b \<and> sqrtUpTo n b * sqrtUpTo n b \<le> n \<and>
   (\<forall>k \<le> b. k * k \<le> n \<longrightarrow> k \<le> sqrtUpTo n b)"
proof (induction b)
  case 0
  then show ?case by simp
next
  case (Suc b)
  show ?case
  proof (cases "Suc b * Suc b \<le> n")
    case True
    then show ?thesis by simp
  next
    case False
    have "k \<le> sqrtUpTo n b" if "k \<le> Suc b" "k * k \<le> n" for k
    proof -
      from that False have "k \<noteq> Suc b" by auto
      with that Suc show ?thesis by simp
    qed
    with False Suc show ?thesis by (auto simp: le_Suc_eq)
  qed
qed

lemma sqrtUpTo_square: "sqrtUpTo (k * k) (k * k) = k"
proof -
  let ?r = "sqrtUpTo (k * k) (k * k)"
  have "k \<le> k * k" by (cases k) simp_all
  with sqrtUpTo_spec [of "k * k" "k * k"] have "k \<le> ?r" by blast
  moreover have "?r * ?r \<le> k * k" using sqrtUpTo_spec [of "k * k" "k * k"] by blast
  then have "?r \<le> k"
    using power2_nat_le_eq_le [of ?r k] by (simp add: power2_eq_square)
  ultimately show ?thesis by simp
qed


lemma floorSqrt_square_iff:
  assumes "0 \<le> n"
  shows "floorSqrt n * floorSqrt n = n \<longleftrightarrow> (\<exists>k::nat. int (k * k) = n)"
proof
  assume "floorSqrt n * floorSqrt n = n"
  then have "int (sqrtUpTo (nat n) (nat n) * sqrtUpTo (nat n) (nat n)) = n"
    by (simp add: floorSqrt_def)
  then show "\<exists>k::nat. int (k * k) = n" by blast
next
  assume "\<exists>k::nat. int (k * k) = n"
  then obtain k :: nat where k: "int (k * k) = n" by blast
  then have "nat n = k * k" by (metis nat_int)
  then have "floorSqrt n = int k" by (simp add: floorSqrt_def sqrtUpTo_square)
  with k show "floorSqrt n * floorSqrt n = n" by simp
qed

lemma floorSqrt_of_square: "floorSqrt (int (k * k)) = int k"
  by (simp add: floorSqrt_def sqrtUpTo_square del: of_nat_mult)

lemma inferWidth_zero:
  "inferWidth (int n) 0 = (if \<exists>k. k * k = n then int (sqrtUpTo n n) else int n)"
proof (cases "\<exists>k. k * k = n")
  case True
  then obtain k where "k * k = n" by blast
  then show ?thesis
    using floorSqrt_of_square [of k] True by (auto simp: inferWidth_def Let_def floorSqrt_def)
next
  case False
  then have "\<not> (\<exists>k::nat. int (k * k) = int n)" by (metis of_nat_eq_iff)
  with floorSqrt_square_iff [of "int n"] False show ?thesis
    by (simp add: inferWidth_def Let_def)
qed

lemma inferWidth_pos: "0 < n \<Longrightarrow> 0 < inferWidth (int n) 0"
proof -
  assume n: "0 < n"
  show ?thesis
  proof (cases "\<exists>k. k * k = n")
    case True
    then obtain k where k: "k * k = n" by blast
    with n have "0 < k" by (cases k) auto
    with k True show ?thesis by (auto simp: inferWidth_zero sqrtUpTo_square)
  next
    case False
    with n show ?thesis by (simp add: inferWidth_zero)
  qed
qed

lemma inferWidth_nonzero: "w \<noteq> 0 \<Longrightarrow> inferWidth n w = w"
  by (simp add: inferWidth_def)

text \<open>With no width given, the grid is the one for the inferred width.\<close>

lemma hexGrid_zero:
  "hexGrid s 0 = hexGrid s (inferWidth (int (length s)) 0)"
proof (cases "s = []")
  case True
  then show ?thesis by (simp add: hexGrid_def inferWidth_def floorSqrt_def)
next
  case False
  then have "0 < inferWidth (int (length s)) 0" by (intro inferWidth_pos) simp
  then have "inferWidth (int (length s)) (inferWidth (int (length s)) 0) =
             inferWidth (int (length s)) 0"
    by (intro inferWidth_nonzero) simp
  then show ?thesis by (simp add: hexGrid_def Let_def)
qed

lemma ceilDiv_ceiling: "ceilDiv a b = \<lceil>real_of_int a / real_of_int b\<rceil>"
  by (simp add: ceilDiv_def ceiling_divide_eq_div)

lemma ceilDiv_bounds:
  assumes "0 < w"
  shows "n \<le> w * ceilDiv n w" and "w * ceilDiv n w < n + w"
proof -
  define q r where "q = (- n) div w" and "r = (- n) mod w"
  have "0 \<le> r" "r < w" using assms by (simp_all add: r_def)
  moreover have "- n = w * q + r" by (simp add: q_def r_def)
  ultimately have "n \<le> - (w * q)" and "- (w * q) < n + w" by linarith+
  then show "n \<le> w * ceilDiv n w" and "w * ceilDiv n w < n + w"
    by (simp_all add: ceilDiv_def q_def)
qed

lemma div_less_ceilDiv:
  assumes "0 < w" "0 \<le> k" "k < n"
  shows "k div w < ceilDiv n w"
proof -
  define q r where "q = k div w" and "r = k mod w"
  have "0 \<le> r" using assms by (simp add: r_def)
  moreover have "k = w * q + r" by (simp add: q_def r_def)
  ultimately have "w * (k div w) \<le> k" by (simp add: q_def)
  also have "k < n" by fact
  also have "n \<le> w * ceilDiv n w" using assms by (intro ceilDiv_bounds)
  finally have "w * (k div w) < w * ceilDiv n w" .
  with assms show ?thesis by simp
qed

lemma ceilDiv_pos: "0 < w \<Longrightarrow> 0 < n \<Longrightarrow> 0 < ceilDiv n w"
  using div_less_ceilDiv [of w 0 n] by simp

text \<open>
  The grid for a positive width, on a non-empty stream of the alphabet: the loop returns
  an image; the image is the rectangle from the origin, as wide as asked and
  \<open>ceil(n / w)\<close> high; the pixel of the \<open>k\<close>-th character is at column \<open>k mod w\<close> of row
  \<open>k div w\<close>; and every point of the rectangle beyond the stream is transparent.
\<close>

lemma hexGrid_positive:
  assumes "s \<noteq> []" and "list_all keepChar s" and "0 < w"
  obtains img where "hexGrid s w = Inr img"
    and "bounds img = \<lparr>minX = 0, minY = 0, maxX = w, maxY = ceilDiv (int (length s)) w\<rparr>"
    and "\<forall>k<length s. Some (imgAt img (int k mod w) (int k div w)) = cellColor (s ! k)"
    and "\<forall>x y. pointIn x y (bounds img) \<longrightarrow> int (length s) \<le> y * w + x \<longrightarrow>
                 imgAt img x y = RGBA 0 0 0 0"
proof -
  let ?n = "int (length s)"
  let ?h = "ceilDiv ?n w"
  let ?img0 = "zeroImage (Rect 0 0 w ?h)"
  from assms have n: "0 < ?n" by simp
  with assms have h: "0 < ?h" by (intro ceilDiv_pos)
  have rect: "Rect 0 0 w ?h = \<lparr>minX = 0, minY = 0, maxX = w, maxY = ?h\<rparr>"
    using assms h by (simp add: Rect_def)
  from hexLoop_total [OF assms(2)] obtain img where run: "hexLoop ?img0 w 0 s = Inr img"
    by blast
  with n assms have res: "hexGrid s w = Inr img"
    by (simp add: hexGrid_def Let_def inferWidth_nonzero)
  have b: "bounds img = \<lparr>minX = 0, minY = 0, maxX = w, maxY = ?h\<rparr>"
    using hexLoop_bounds [OF run] by (simp add: zeroImage_def rect)
  have written: "Some (imgAt img (int k mod w) (int k div w)) = cellColor (s ! k)"
    if "k < length s" for k
  proof -
    have "int k div w < ?h" using that assms by (intro div_less_ceilDiv) simp_all
    moreover have "0 \<le> int k div w" using assms by (simp add: pos_imp_zdiv_nonneg_iff)
    ultimately have "pointIn (int k mod w) (int k div w) (bounds ?img0)"
      using assms by (simp add: pointIn_def zeroImage_def rect)
    then have "pointIn (goRem (0 + int k) w) (goQuo (0 + int k) w) (bounds ?img0)"
      using assms by (simp add: goRem_pos goQuo_pos)
    from hexLoop_written [OF run that this] show ?thesis
      using assms by (simp add: goRem_pos goQuo_pos)
  qed
  have beyond: "imgAt img x y = RGBA 0 0 0 0"
    if "pointIn x y (bounds img)" "?n \<le> y * w + x" for x y
  proof -
    have "\<forall>k<length s. \<not> (goRem (0 + int k) w = x \<and> goQuo (0 + int k) w = y)"
    proof (intro allI impI notI)
      fix k assume k: "k < length s"
        and "goRem (0 + int k) w = x \<and> goQuo (0 + int k) w = y"
      with go_decompose [of "int k" w] have "int k = x + w * y" by simp
      with that(2) k show False by (simp add: mult.commute)
    qed
    from hexLoop_untouched [OF run this] show ?thesis
      by (simp add: imgAt_def zeroImage_def)
  qed
  from res b written beyond show thesis using that by blast
qed

section \<open>The pixel buffer\<close>

lemma goInt_id: "0 \<le> x \<Longrightarrow> x < 2 ^ 63 \<Longrightarrow> goInt x = x"
  by (simp add: goInt_def)

lemma Dx_Rect: "0 \<le> w \<Longrightarrow> Dx (Rect 0 0 w h) = w"
  by (simp add: Dx_def Rect_def)

lemma Dy_Rect: "0 \<le> h \<Longrightarrow> Dy (Rect 0 0 w h) = h"
  by (simp add: Dy_def Rect_def)

lemma NewRGBA_cases:
  "NewRGBA wd r = Inr (zeroImage r) \<or> NewRGBA wd r = Inl HugeDimensions \<or>
   NewRGBA wd r = Inl OutOfMemory"
  by (simp add: NewRGBA_def Let_def)

lemma NewRGBA_Inr: "NewRGBA wd r = Inr img \<Longrightarrow> img = zeroImage r"
  using NewRGBA_cases [of wd r] by auto

lemma NewRGBA_Inl: "NewRGBA wd r = Inl e \<Longrightarrow> aborts e"
  using NewRGBA_cases [of wd r] by (auto simp: aborts_def)

text \<open>Whether the buffer is there depends on the width and the height only.\<close>

lemma NewRGBA_same_size:
  assumes "NewRGBA wd r = Inr z" and "Dx r' = Dx r" and "Dy r' = Dy r"
  shows "NewRGBA wd r' = Inr (zeroImage r')"
  using assms by (simp add: NewRGBA_def Let_def split: if_splits)

lemma NewRGBA_allocatable:
  assumes "1 \<le> w" and "1 \<le> h" and "allocatable wd w h"
  shows "NewRGBA wd (Rect 0 0 w h) = Inr (zeroImage (Rect 0 0 w h))"
proof -
  define p where "p = w * h"
  from assms have len: "4 * p < 2 ^ 63" and mem: "canAllocate wd (4 * p)"
    by (simp_all add: allocatable_def p_def mult.assoc)
  have "w * 1 \<le> w * h" using assms(1,2) by (intro mult_left_mono) simp_all
  then have wp: "w \<le> p" by (simp add: p_def)
  have "1 * h \<le> w * h" using assms(1,2) by (intro mult_right_mono) simp_all
  then have hp: "h \<le> p" by (simp add: p_def)
  from wp assms(1) have p0: "0 < p" by linarith
  from wp len have w: "4 * w < 2 ^ 63" by linarith
  from hp len p0 have h: "h < 2 ^ 63" by linarith
  from w assms(1) have gw: "goInt w = w" by (intro goInt_id) linarith+
  from h assms(2) have gh: "goInt h = h" by (intro goInt_id) linarith+
  have m: "mul3NonNeg 4 w h = 4 * p"
  proof -
    have "\<not> (4 < (0::int) \<or> w < 0 \<or> h < 0)" using assms(1,2) by simp
    moreover have "\<not> 2 ^ 64 \<le> 4 * w" using w by simp
    moreover have "4 * w * h = 4 * p" by (simp add: p_def)
    moreover have "\<not> 2 ^ 64 \<le> 4 * p" "\<not> 2 ^ 63 \<le> 4 * p" using len by simp_all
    ultimately show ?thesis by (simp only: mul3NonNeg_def if_False)
  qed
  have d: "Dx (Rect 0 0 w h) = w" "Dy (Rect 0 0 w h) = h"
    using assms(1,2) by (simp_all add: Dx_Rect Dy_Rect)
  from p0 have "\<not> 4 * p < 0" by linarith
  with mem show ?thesis by (simp add: NewRGBA_def Let_def d gw gh m)
qed

text \<open>
  An image that \<open>image.NewRGBA\<close> returned for a rectangle of width and height at least 1
  has an allocatable buffer, when the two are \<open>int\<close>s.
\<close>

lemma NewRGBA_Inr_allocatable:
  assumes "NewRGBA wd r = Inr z" and "1 \<le> Dx r" and "Dx r < 2 ^ 63"
    and "1 \<le> Dy r" and "Dy r < 2 ^ 63"
  shows "allocatable wd (Dx r) (Dy r)"
proof -
  from assms(2,3) have gw: "goInt (Dx r) = Dx r" by (intro goInt_id) simp_all
  from assms(4,5) have gh: "goInt (Dy r) = Dy r" by (intro goInt_id) simp_all
  define m where "m = mul3NonNeg 4 (Dx r) (Dy r)"
  have pos: "0 < 4 * Dx r * Dy r" using assms(2,4) by simp
  from assms(1) have m: "0 \<le> m" and c: "m = 0 \<or> canAllocate wd m"
    by (auto simp: NewRGBA_def Let_def gw gh m_def [symmetric] split: if_splits)
  from m have eq: "m = 4 * Dx r * Dy r" and lt: "4 * Dx r * Dy r < 2 ^ 63"
    unfolding m_def mul3NonNeg_def by (auto split: if_splits)
  from assms(2,4) have "m \<noteq> 0" by (simp add: eq)
  with c have "canAllocate wd (4 * Dx r * Dy r)" by (simp add: eq)
  with lt show ?thesis by (simp add: allocatable_def)
qed

section \<open>hexToImage and the grid\<close>

lemma hexToImage_hexGrid:
  "hexToImage wd s w =
     (if s = [] then Inl EmptyInput
      else case NewRGBA wd (Rect 0 0 (inferWidth (int (length s)) w)
                  (ceilDiv (int (length s)) (inferWidth (int (length s)) w))) of
             Inl err \<Rightarrow> Inl err
           | Inr img \<Rightarrow> hexGrid s w)"
proof (cases "s = []")
  case True
  then show ?thesis by (simp add: hexToImage_def)
next
  case False
  let ?r = "Rect 0 0 (inferWidth (int (length s)) w)
                  (ceilDiv (int (length s)) (inferWidth (int (length s)) w))"
  show ?thesis
  proof (cases "NewRGBA wd ?r")
    case (Inl e)
    with False show ?thesis by (simp add: hexToImage_def Let_def)
  next
    case (Inr img)
    from NewRGBA_Inr [OF this] Inr False show ?thesis
      by (simp add: hexToImage_def Let_def hexGrid_def)
  qed
qed

lemma hexToImage_Inr:
  assumes "hexToImage wd s w = Inr img"
  shows "s \<noteq> []" and "hexGrid s w = Inr img"
    and "NewRGBA wd (Rect 0 0 (inferWidth (int (length s)) w)
           (ceilDiv (int (length s)) (inferWidth (int (length s)) w))) =
         Inr (zeroImage (Rect 0 0 (inferWidth (int (length s)) w)
           (ceilDiv (int (length s)) (inferWidth (int (length s)) w))))"
proof -
  let ?r = "Rect 0 0 (inferWidth (int (length s)) w)
                  (ceilDiv (int (length s)) (inferWidth (int (length s)) w))"
  from assms show ne: "s \<noteq> []" by (auto simp: hexToImage_hexGrid)
  from assms ne obtain z where z: "NewRGBA wd ?r = Inr z"
    by (cases "NewRGBA wd ?r") (simp_all add: hexToImage_hexGrid)
  with assms ne show "hexGrid s w = Inr img" by (simp add: hexToImage_hexGrid)
  from z NewRGBA_Inr [OF z] show "NewRGBA wd ?r = Inr (zeroImage ?r)" by simp
qed

lemma hexToImage_Inl:
  assumes "hexToImage wd s w = Inl e"
  shows "(s = [] \<and> e = EmptyInput) \<or> (s \<noteq> [] \<and> aborts e) \<or> (s \<noteq> [] \<and> hexGrid s w = Inl e)"
proof (cases "s = []")
  case True
  with assms show ?thesis by (simp add: hexToImage_hexGrid)
next
  case False
  let ?r = "Rect 0 0 (inferWidth (int (length s)) w)
                  (ceilDiv (int (length s)) (inferWidth (int (length s)) w))"
  show ?thesis
  proof (cases "NewRGBA wd ?r")
    case (Inl e')
    with assms False have "e' = e" by (simp add: hexToImage_hexGrid)
    with NewRGBA_Inl [OF Inl] False show ?thesis by simp
  next
    case (Inr z)
    with assms False show ?thesis by (simp add: hexToImage_hexGrid)
  qed
qed

text \<open>With the buffer allocatable, the conversion is the grid.\<close>

lemma hexToImage_allocated:
  assumes "s \<noteq> []" and "1 \<le> inferWidth (int (length s)) w"
    and "allocatable wd (inferWidth (int (length s)) w)
           (ceilDiv (int (length s)) (inferWidth (int (length s)) w))"
  shows "hexToImage wd s w = hexGrid s w"
proof -
  let ?n = "int (length s)"
  let ?w = "inferWidth ?n w"
  from assms(1) have "0 < ?n" by simp
  with assms(2) have "0 < ceilDiv ?n ?w" by (intro ceilDiv_pos) simp_all
  then have "1 \<le> ceilDiv ?n ?w" by simp
  from NewRGBA_allocatable [OF assms(2) this assms(3)] assms(1) show ?thesis
    by (simp add: hexToImage_hexGrid)
qed

text \<open>Without it, the run is aborted before the loop.\<close>

lemma hexToImage_aborted:
  assumes "s \<noteq> []"
    and "NewRGBA wd (Rect 0 0 (inferWidth (int (length s)) w)
           (ceilDiv (int (length s)) (inferWidth (int (length s)) w))) = Inl e"
  shows "hexToImage wd s w = Inl e"
  using assms by (simp add: hexToImage_hexGrid)

section \<open>The loop of readHexFromTextFile\<close>

lemma lowerByte_eq_colon: "lowerByte c = CHR '':'' \<Longrightarrow> c = CHR '':''"
proof (cases "65 \<le> byte c \<and> byte c \<le> 90")
  case False
  assume "lowerByte c = CHR '':''"
  with False show ?thesis by (auto simp: lowerByte_def split: if_splits)
next
  case True
  assume "lowerByte c = CHR '':''"
  with True have "char_of (byte c + 32) = CHR '':''" by (simp add: lowerByte_def)
  then have "of_char (char_of (byte c + 32)) = (of_char (CHR '':'') :: nat)" by simp
  then have "(byte c + 32) mod 256 = 58" by simp
  with True show ?thesis by simp
qed

lemma lowersTo_colon: "lowersTo CHR '':'' s = Suc n \<Longrightarrow> n = 0 \<and> s \<noteq> [] \<and> hd s = CHR '':''"
  by (cases s) (auto simp: lowersTo_def split: if_splits dest: lowerByte_eq_colon)


text \<open>A \<open>file:\<close> header contains a colon, so \<open>SplitN\<close> always gives two parts for it.\<close>

lemma lowerHasPrefix_mem:
  "lowerHasPrefix s ps \<Longrightarrow> CHR '':'' \<in> set ps \<Longrightarrow> CHR '':'' \<in> set s"
proof (induction ps arbitrary: s)
  case Nil
  then show ?case by simp
next
  case (Cons p ps)
  from Cons.prems(1) obtain n where n: "lowersTo p s = Suc n"
    and rest: "lowerHasPrefix (drop (Suc n) s) ps"
    by (auto split: nat.splits)
  show ?case
  proof (cases "p = CHR '':''")
    case True
    with n lowersTo_colon [of s n] show ?thesis by (cases s) auto
  next
    case False
    with Cons.prems(2) have "CHR '':'' \<in> set ps" by simp
    from Cons.IH [OF rest this] show ?thesis by (auto dest: in_set_dropD)
  qed
qed

declare lowerHasPrefix.simps [simp del]

lemma SplitN2_colon:
  assumes "CHR '':'' \<in> set line"
  shows "length (SplitN2 line) = 2"
    and "SplitN2 line ! 1 = drop 1 (dropWhile (\<lambda>c. c \<noteq> CHR '':'') line)"
proof -
  from assms have "dropWhile (\<lambda>c. c \<noteq> CHR '':'') line \<noteq> []" by (simp add: dropWhile_eq_Nil_conv)
  then obtain c rest where "dropWhile (\<lambda>c. c \<noteq> CHR '':'') line = c # rest"
    by (cases "dropWhile (\<lambda>c. c \<noteq> CHR '':'') line") auto
  then show "length (SplitN2 line) = 2"
    and "SplitN2 line ! 1 = drop 1 (dropWhile (\<lambda>c. c \<noteq> CHR '':'') line)"
    by (simp_all add: SplitN2_def)
qed

lemma processLine_fileHeader:
  assumes "isFileHeader text"
  shows "processLine st text = st\<lparr>origFileName := fileHeaderValue text\<rparr>"
proof -
  from assms have h: "HasPrefix (TrimRightCR text) ''#''"
    and f: "lowerHasPrefix (TrimRightCR text) ''# file:''"
    by (simp_all add: isFileHeader_def isHeader_def)
  have "CHR '':'' \<in> set (TrimRightCR text)"
    by (rule lowerHasPrefix_mem [OF f]) simp
  note sp = SplitN2_colon [OF this]
  from h f have "processLine st text =
      st\<lparr>origFileName := TrimSpace (SplitN2 (TrimRightCR text) ! 1)\<rparr>"
    by (simp add: processLine_def Let_def sp(1))
  then show ?thesis by (simp only: sp(2) fileHeaderValue_def)
qed

lemma processLine_otherHeader:
  assumes "isHeader text" and "\<not> isFileHeader text"
  shows "processLine st text = st"
proof -
  from assms have "HasPrefix (TrimRightCR text) ''#''"
    and "\<not> lowerHasPrefix (TrimRightCR text) ''# file:''"
    by (simp_all add: isFileHeader_def isHeader_def)
  then show ?thesis by (simp add: processLine_def Let_def)
qed

lemma processLine_content:
  assumes "\<not> isHeader text"
  shows "processLine st text =
     (if processed text = [] then st
      else st\<lparr>firstWidth := (if firstWidth st = 0 then int (length (processed text))
                               else firstWidth st),
              filteredLines := filteredLines st @ [processed text]\<rparr>)"
proof -
  from assms have "\<not> HasPrefix (TrimRightCR text) ''#''" by (simp add: isHeader_def)
  then show ?thesis by (simp add: processLine_def Let_def processed_def)
qed

text \<open>What the loop over the lines leaves in its three variables.\<close>

lemma foldl_processLine:
  "filteredLines (foldl processLine st ls) = filteredLines st @ contentLines ls \<and>
   firstWidth (foldl processLine st ls) =
     (if firstWidth st \<noteq> 0 then firstWidth st else declaredWidth ls) \<and>
   origFileName (foldl processLine st ls) =
     (if filter isFileHeader ls = [] then origFileName st else recoveredName ls)"
proof (induction ls arbitrary: st)
  case Nil
  then show ?case by (simp add: contentLines_def declaredWidth_def recoveredName_def)
next
  case (Cons l ls)
  note IH = Cons.IH [of "processLine st l"]
  consider (fileHdr) "isFileHeader l" | (otherHdr) "\<not> isFileHeader l" "isHeader l"
    | (blank) "\<not> isHeader l" "processed l = []" | (content) "\<not> isHeader l" "processed l \<noteq> []"
    by blast
  then show ?case
  proof cases
    case fileHdr
    then have hd: "isHeader l" by (simp add: isFileHeader_def)
    have st': "processLine st l = st\<lparr>origFileName := fileHeaderValue l\<rparr>"
      using fileHdr by (rule processLine_fileHeader)
    have rn: "recoveredName (l # ls) =
        (if filter isFileHeader ls = [] then fileHeaderValue l else recoveredName ls)"
      using fileHdr by (simp add: recoveredName_def split: list.splits)
    from IH show ?thesis
      using fileHdr hd by (simp add: st' rn contentLines_def declaredWidth_def)
  next
    case otherHdr
    have st': "processLine st l = st" using otherHdr by (simp add: processLine_otherHeader)
    have rn: "recoveredName (l # ls) = recoveredName ls"
      using otherHdr by (simp add: recoveredName_def)
    from IH show ?thesis
      using otherHdr by (simp add: st' rn contentLines_def declaredWidth_def)
  next
    case blank
    then have nf: "\<not> isFileHeader l" by (simp add: isFileHeader_def)
    have st': "processLine st l = st" using blank by (simp add: processLine_content)
    have rn: "recoveredName (l # ls) = recoveredName ls"
      using nf by (simp add: recoveredName_def)
    from IH show ?thesis
      using blank nf by (simp add: st' rn contentLines_def declaredWidth_def)
  next
    case content
    then have nf: "\<not> isFileHeader l" by (simp add: isFileHeader_def)
    have st': "processLine st l =
        st\<lparr>firstWidth := (if firstWidth st = 0 then int (length (processed l))
                            else firstWidth st),
           filteredLines := filteredLines st @ [processed l]\<rparr>"
      using content by (simp add: processLine_content)
    have rn: "recoveredName (l # ls) = recoveredName ls"
      using nf by (simp add: recoveredName_def)
    have cl: "contentLines (l # ls) = processed l # contentLines ls"
      using content by (simp add: contentLines_def)
    from IH show ?thesis
      using content nf by (simp add: st' rn cl declaredWidth_def)
  qed
qed

section \<open>The scanner and the result of a parse\<close>

lemma TrimRightCR_dropCR: "TrimRightCR (dropCR l) = TrimRightCR l"
proof (cases "l \<noteq> [] \<and> last l = CHR 0x0D")
  case False
  then show ?thesis by (auto simp: dropCR_def)
next
  case True
  have "TrimRightCR (butlast l @ [CHR 0x0D]) = TrimRightCR (butlast l)"
    by (simp add: TrimRightCR_def)
  moreover have "butlast l @ [CHR 0x0D] = l"
    using True append_butlast_last_id [of l] by simp
  ultimately have "TrimRightCR l = TrimRightCR (butlast l)" by simp
  with True show ?thesis by (simp add: dropCR_def)
qed

lemma isHeader_dropCR [simp]: "isHeader (dropCR l) = isHeader l"
  by (simp add: isHeader_def TrimRightCR_dropCR)

lemma isFileHeader_dropCR [simp]: "isFileHeader (dropCR l) = isFileHeader l"
  by (simp add: isFileHeader_def TrimRightCR_dropCR)

lemma processed_dropCR [simp]: "processed (dropCR l) = processed l"
  by (simp add: processed_def TrimRightCR_dropCR)

lemma fileHeaderValue_dropCR [simp]: "fileHeaderValue (dropCR l) = fileHeaderValue l"
  by (simp add: fileHeaderValue_def TrimRightCR_dropCR)

lemma contentLines_dropCR: "contentLines (map dropCR ls) = contentLines ls"
  by (induction ls) (simp_all add: contentLines_def)

lemma declaredWidth_dropCR: "declaredWidth (map dropCR ls) = declaredWidth ls"
  by (simp add: declaredWidth_def contentLines_dropCR)

lemma recoveredName_dropCR: "recoveredName (map dropCR ls) = recoveredName ls"
proof -
  have "filter isFileHeader (map dropCR ls) = map dropCR (filter isFileHeader ls)"
    by (induction ls) simp_all
  then show ?thesis
    by (cases "rev (filter isFileHeader ls)") (simp_all add: recoveredName_def rev_map)
qed

text \<open>The result of a parse, from the lines of the text.\<close>

lemma parseContent_lines:
  assumes "\<forall>l \<in> set (scanLines content). length l < MaxScanTokenSize"
  shows "parseContent content =
           Inr (filterHexString (concat (contentLines (scanLines content))),
                declaredWidth (scanLines content), recoveredName (scanLines content))"
proof -
  let ?ls = "map dropCR (scanLines content)"
  from assms have scan: "scanAll content = Inr ?ls"
    by (auto simp: scanAll_def Let_def)
  have init: "filteredLines initState = []" "firstWidth initState = 0" "origFileName initState = []"
    by (simp_all add: initState_def)
  have rn: "recoveredName ?ls = []" if "filter isFileHeader ?ls = []"
    using that by (simp add: recoveredName_def)
  from foldl_processLine [of initState ?ls] init rn
  have "filteredLines (foldl processLine initState ?ls) = contentLines ?ls"
    and "firstWidth (foldl processLine initState ?ls) = declaredWidth ?ls"
    and "origFileName (foldl processLine initState ?ls) = recoveredName ?ls"
    by auto
  then show ?thesis
    by (simp add: parseContent_def scan Let_def contentLines_dropCR declaredWidth_dropCR
        recoveredName_dropCR)
qed

lemma parseContent_too_long:
  assumes "\<exists>l \<in> set (scanLines content). MaxScanTokenSize \<le> length l"
  shows "parseContent content = Inl ErrTooLong"
  using assms by (simp add: parseContent_def scanAll_def Let_def)

subsection \<open>Cutting a text into lines\<close>

lemma scanLines_eq_Nil [simp]: "scanLines s = [] \<longleftrightarrow> s = []"
  by (cases s) (auto split: list.splits)

lemma scanLines_line:
  "CHR 0x0A \<notin> set l \<Longrightarrow> scanLines (l @ CHR 0x0A # rest) = l # scanLines rest"
  by (induction l) auto

lemma scanLines_last:
  "CHR 0x0A \<notin> set l \<Longrightarrow> l \<noteq> [] \<Longrightarrow> scanLines l = [l]"
proof (induction l)
  case Nil
  then show ?case by simp
next
  case (Cons c l)
  then show ?case by (cases "l = []") auto
qed

lemma scanLines_append:
  "a = [] \<or> last a = CHR 0x0A \<Longrightarrow> scanLines (a @ b) = scanLines a @ scanLines b"
proof (induction a rule: length_induct)
  case (1 a)
  show ?case
  proof (cases "a = []")
    case True
    then show ?thesis by simp
  next
    case False
    with 1(2) have la: "last a = CHR 0x0A" by simp
    with False have "CHR 0x0A \<in> set a" using last_in_set [of a] by simp
    then obtain l r' where a: "a = l @ CHR 0x0A # r'" and nl: "CHR 0x0A \<notin> set l"
      using split_list_first [of "CHR 0x0A" a] by blast
    have short: "length r' < length a" by (simp add: a)
    have "r' = [] \<or> last r' = CHR 0x0A" using la by (cases "r' = []") (simp_all add: a)
    with 1(1) short have "scanLines (r' @ b) = scanLines r' @ scanLines b" by blast
    moreover have "scanLines (a @ b) = l # scanLines (r' @ b)"
      using scanLines_line [OF nl, of "r' @ b"] by (simp add: a)
    moreover have "scanLines a = l # scanLines r'"
      using scanLines_line [OF nl, of r'] by (simp add: a)
    ultimately show ?thesis by simp
  qed
qed

section \<open>Empty input\<close>

lemma hexGrid_unfold:
  "hexGrid s w =
     hexLoop (zeroImage (Rect 0 0 (inferWidth (int (length s)) w)
                (ceilDiv (int (length s)) (inferWidth (int (length s)) w))))
       (inferWidth (int (length s)) w) 0 s"
  by (simp add: hexGrid_def)

lemma hexGrid_not_EmptyInput: "hexGrid s w \<noteq> Inl EmptyInput"
proof (cases "list_all keepChar s")
  case True
  from hexLoop_total [OF this] obtain img where
    "hexLoop (zeroImage (Rect 0 0 (inferWidth (int (length s)) w)
                (ceilDiv (int (length s)) (inferWidth (int (length s)) w))))
       (inferWidth (int (length s)) w) 0 s = Inr img"
    by blast
  then show ?thesis by (simp add: hexGrid_unfold)
next
  case False
  from hexLoop_fails [OF this] show ?thesis by (simp add: hexGrid_unfold)
qed

lemma hexToImage_EmptyInput_iff: "hexToImage wd s w = Inl EmptyInput \<longleftrightarrow> s = []"
proof
  assume "s = []"
  then show "hexToImage wd s w = Inl EmptyInput" by (simp add: hexToImage_def)
next
  assume "hexToImage wd s w = Inl EmptyInput"
  from hexToImage_Inl [OF this] hexGrid_not_EmptyInput [of s w] show "s = []"
    by (auto simp: aborts_def)
qed

lemma contentLines_headers: "\<forall>l \<in> set ls. isHeader l \<Longrightarrow> contentLines ls = []"
  by (simp add: contentLines_def filter_empty_conv)

lemma parseContent_headers_only:
  assumes "\<forall>l \<in> set (scanLines content). isHeader l"
    and "parseContent content = Inr (joined, fw, name)"
  shows "joined = [] \<and> fw = 0"
proof (cases "\<forall>l \<in> set (scanLines content). length l < MaxScanTokenSize")
  case True
  from parseContent_lines [OF True] assms(2) contentLines_headers [OF assms(1)]
  show ?thesis by (simp add: declaredWidth_def filterHexString_def)
next
  case False
  then have "\<exists>l \<in> set (scanLines content). MaxScanTokenSize \<le> length l"
    by (auto simp: not_less)
  from parseContent_too_long [OF this] assms(2) show ?thesis by simp
qed

text \<open>
  Claim C5. \<open>hexToImage\<close> fails with \<open>EmptyInput\<close> exactly when its stream is empty,
  and then returns no image. A text all of whose lines are header lines parses, when it
  parses, to the empty stream and the width 0, on which \<open>hexToImage\<close> fails with
  \<open>EmptyInput\<close> whatever the width; and the program run on such a file (no line too
  long for the scanner) ends with that error.
\<close>

theorem hexToImage_EmptyInput:
  "(hexToImage wd s w = Inl EmptyInput \<longleftrightarrow> s = []) \<and>
   (s = [] \<longrightarrow> imageSize (hexToImage wd s w) = None) \<and>
   ((\<forall>l \<in> set (scanLines content). isHeader l) \<longrightarrow>
      (\<forall>joined fw name. parseContent content = Inr (joined, fw, name) \<longrightarrow>
         joined = [] \<and> fw = 0 \<and> hexToImage wd joined w = Inl EmptyInput)) \<and>
   ((\<forall>l \<in> set (scanLines content). isHeader l \<and> length l < MaxScanTokenSize) \<longrightarrow>
      readFile wd input = Some content \<longrightarrow>
      textMode wd fl input = Failed (ConvertingHexToImage EmptyInput))"
proof (intro conjI impI allI)
  show "hexToImage wd s w = Inl EmptyInput \<longleftrightarrow> s = []" by (rule hexToImage_EmptyInput_iff)
next
  assume "s = []"
  then show "imageSize (hexToImage wd s w) = None" by (simp add: hexToImage_def imageSize_def)
next
  fix joined fw name
  assume "\<forall>l \<in> set (scanLines content). isHeader l"
    and "parseContent content = Inr (joined, fw, name)"
  then have "joined = [] \<and> fw = 0" by (rule parseContent_headers_only)
  then show "joined = []" and "fw = 0" and "hexToImage wd joined w = Inl EmptyInput"
    by (simp_all add: hexToImage_def)
next
  assume all: "\<forall>l \<in> set (scanLines content). isHeader l \<and> length l < MaxScanTokenSize"
    and rd: "readFile wd input = Some content"
  from all have short: "\<forall>l \<in> set (scanLines content). length l < MaxScanTokenSize"
    and hdr: "\<forall>l \<in> set (scanLines content). isHeader l" by blast+
  have "parseContent content = Inr ([], 0, recoveredName (scanLines content))"
    using parseContent_lines [OF short] contentLines_headers [OF hdr]
    by (simp add: declaredWidth_def filterHexString_def)
  with rd show "textMode wd fl input = Failed (ConvertingHexToImage EmptyInput)"
    by (simp add: textMode_def readHexFromTextFile_def hexToImage_def aborts_def)
qed

lemma headerOnly_lines:
  "scanLines (''# file: a.png'' @ newline @ ''# width: 2'' @ newline) =
     [''# file: a.png'', ''# width: 2'']"
  by (simp add: newline_def)

text \<open>A file of two header lines, converted with the default flags.\<close>

theorem hexToImage_EmptyInput_witness:
  "hexToImage emptyWorld [] 3 = Inl EmptyInput \<and>
   textMode (textWorld (''# file: a.png'' @ newline @ ''# width: 2'' @ newline))
     (defaultFlags [''a.txt'']) ''a.txt'' = Failed (ConvertingHexToImage EmptyInput)"
proof -
  let ?content = "''# file: a.png'' @ newline @ ''# width: 2'' @ newline"
  have lines: "\<forall>l \<in> set (scanLines ?content). isHeader l \<and> length l < MaxScanTokenSize"
    by (simp only: headerOnly_lines)
       (simp add: isHeader_def HasPrefix_def TrimRightCR_def MaxScanTokenSize_def)
  have "readFile (textWorld ?content) ''a.txt'' = Some ?content"
    by (simp add: textWorld_def)
  with lines hexToImage_EmptyInput [of "textWorld ?content" "[]" 3 ?content "''a.txt''"
      "defaultFlags [''a.txt'']"]
    hexToImage_EmptyInput [of emptyWorld "[]" 3 "[]" "[]" "defaultFlags []"]
  show ?thesis by blast
qed

section \<open>The alphabet of the stream\<close>


lemma hexGrid_valid:
  assumes "list_all keepChar s"
  shows "\<exists>img. hexGrid s w = Inr img"
  using hexLoop_total [OF assms] by (simp add: hexGrid_unfold)

lemma hexGrid_invalid:
  assumes "\<not> list_all keepChar s"
  shows "hexGrid s w = Inl (InvalidDigit (hd (filter (\<lambda>c. \<not> keepChar c) s)))"
  using hexLoop_fails [OF assms] by (simp add: hexGrid_unfold)




lemma hexToImage_valid:
  assumes "hexToImage wd s w = Inr img"
  shows "list_all keepChar s"
proof (rule ccontr)
  assume "\<not> list_all keepChar s"
  from hexGrid_invalid [OF this, of w] hexToImage_Inr(2) [OF assms] show False by simp
qed

text \<open>The pixel of every character, for a given or an inferred width.\<close>

lemma inferWidth_idem:
  assumes "s \<noteq> []" and "0 \<le> w"
  shows "0 < inferWidth (int (length s)) w"
    and "inferWidth (int (length s)) (inferWidth (int (length s)) w) =
         inferWidth (int (length s)) w"
proof -
  show pos: "0 < inferWidth (int (length s)) w"
  proof (cases "w = 0")
    case True
    with assms(1) show ?thesis by (simp add: inferWidth_pos)
  next
    case False
    with assms(2) show ?thesis by (simp add: inferWidth_nonzero)
  qed
  then show "inferWidth (int (length s)) (inferWidth (int (length s)) w) =
         inferWidth (int (length s)) w"
    by (intro inferWidth_nonzero) simp
qed



lemma hexToImage_returns:
  assumes "s \<noteq> []" and "list_all keepChar s" and "0 \<le> w"
    and "allocatable wd (inferWidth (int (length s)) w)
           (ceilDiv (int (length s)) (inferWidth (int (length s)) w))"
  shows "\<exists>img. hexToImage wd s w = Inr img"
proof -
  from inferWidth_idem(1) [OF assms(1,3)] have "1 \<le> inferWidth (int (length s)) w" by simp
  from hexToImage_allocated [OF assms(1) this assms(4)] hexGrid_valid [OF assms(2), of w]
  show ?thesis by simp
qed





section \<open>The dimensions of the image\<close>

lemma imageSize_positive:
  assumes "s \<noteq> []" and "list_all keepChar s" and "0 < w"
  shows "imageSize (hexGrid s w) = Some (w, \<lceil>real (length s) / real_of_int w\<rceil>)"
proof -
  obtain img where res: "hexGrid s w = Inr img"
    and b: "bounds img = \<lparr>minX = 0, minY = 0, maxX = w, maxY = ceilDiv (int (length s)) w\<rparr>"
    and "\<forall>k<length s. Some (imgAt img (int k mod w) (int k div w)) = cellColor (s ! k)"
    and "\<forall>x y. pointIn x y (bounds img) \<longrightarrow> int (length s) \<le> y * w + x \<longrightarrow>
                 imgAt img x y = RGBA 0 0 0 0"
    by (rule hexGrid_positive [OF assms])
  have "ceilDiv (int (length s)) w = \<lceil>real (length s) / real_of_int w\<rceil>"
    using ceilDiv_ceiling [of "int (length s)" w] by simp
  with res b show ?thesis by (simp add: imageSize_def Dx_def Dy_def)
qed

lemma ceiling_self: "0 < (n::nat) \<Longrightarrow> \<lceil>real n / real n\<rceil> = 1"
  by simp

lemma ceiling_square: "0 < (k::nat) \<Longrightarrow> \<lceil>real (k * k) / real k\<rceil> = int k"
  by simp

lemma imageSize_inferred:
  assumes "s \<noteq> []" and "list_all keepChar s"
  shows "(\<forall>k. k * k = length s \<longrightarrow> imageSize (hexGrid s 0) = Some (int k, int k)) \<and>
         ((\<nexists>k. k * k = length s) \<longrightarrow> imageSize (hexGrid s 0) = Some (int (length s), 1))"
proof (intro conjI allI impI)
  fix k assume k: "k * k = length s"
  with assms(1) have pos: "0 < k" by (cases k) auto
  from k have "inferWidth (int (length s)) 0 = int k"
    using inferWidth_zero [of "length s"] sqrtUpTo_square [of k] by auto
  then have "hexGrid s 0 = hexGrid s (int k)" by (simp add: hexGrid_zero)
  moreover have "imageSize (hexGrid s (int k)) =
      Some (int k, \<lceil>real (length s) / real_of_int (int k)\<rceil>)"
    using pos by (intro imageSize_positive assms) simp
  moreover have "\<lceil>real (length s) / real_of_int (int k)\<rceil> = int k"
    using ceiling_square [OF pos] k by simp
  ultimately show "imageSize (hexGrid s 0) = Some (int k, int k)" by simp
next
  assume "\<nexists>k. k * k = length s"
  then have "inferWidth (int (length s)) 0 = int (length s)"
    using inferWidth_zero [of "length s"] by simp
  then have "hexGrid s 0 = hexGrid s (int (length s))" by (simp add: hexGrid_zero)
  moreover have "imageSize (hexGrid s (int (length s))) =
      Some (int (length s), \<lceil>real (length s) / real_of_int (int (length s))\<rceil>)"
    using assms(1) by (intro imageSize_positive assms) simp
  moreover have "\<lceil>real (length s) / real_of_int (int (length s))\<rceil> = 1"
    using assms(1) ceiling_self [of "length s"] by simp
  ultimately show "imageSize (hexGrid s 0) = Some (int (length s), 1)" by simp
qed

lemma not_square_10: "\<nexists>k::nat. k * k = 10"
proof
  assume "\<exists>k::nat. k * k = 10"
  then obtain k :: nat where k: "k * k = 10" by blast
  have "k \<le> 3 \<or> 4 \<le> k" by arith
  then show False
  proof
    assume "k \<le> 3"
    then have "k * k \<le> 3 * 3" by (intro mult_le_mono)
    with k show False by simp
  next
    assume "4 \<le> k"
    then have "4 * 4 \<le> k * k" by (intro mult_le_mono)
    with k show False by simp
  qed
qed

lemma dimensions_of_alphabet:
  assumes "s \<noteq> []" and "list_all keepChar s"
  shows "(\<forall>k. k * k = length s \<longrightarrow> imageSize (hexGrid s 0) = Some (int k, int k)) \<and>
         ((\<nexists>k. k * k = length s) \<longrightarrow> imageSize (hexGrid s 0) = Some (int (length s), 1)) \<and>
         (\<forall>w>0. imageSize (hexGrid s w) = Some (w, \<lceil>real (length s) / real_of_int w\<rceil>)) \<and>
         (length s = 9 \<longrightarrow> imageSize (hexGrid s 0) = Some (3, 3)) \<and>
         (length s = 10 \<longrightarrow> imageSize (hexGrid s 0) = Some (10, 1))"
proof -
  note inf = imageSize_inferred [OF assms]
  note square = inf [THEN conjunct1]
  note other = inf [THEN conjunct2]
  have nine: "length s = 9 \<longrightarrow> imageSize (hexGrid s 0) = Some (3, 3)"
  proof
    assume "length s = 9"
    then have "(3::nat) * 3 = length s" by simp
    with square [rule_format, of 3] show "imageSize (hexGrid s 0) = Some (3, 3)" by simp
  qed
  have ten: "length s = 10 \<longrightarrow> imageSize (hexGrid s 0) = Some (10, 1)"
  proof
    assume len: "length s = 10"
    with not_square_10 have ns: "\<nexists>k. k * k = length s" by simp
    from other ns have "imageSize (hexGrid s 0) = Some (int (length s), 1)" by (rule mp)
    then show "imageSize (hexGrid s 0) = Some (10, 1)" by (simp only: len) simp
  qed
  have pos: "\<forall>w>0. imageSize (hexGrid s w) = Some (w, \<lceil>real (length s) / real_of_int w\<rceil>)"
    using assms by (intro allI impI imageSize_positive)
  show ?thesis
    by (rule conjI [OF square conjI [OF other conjI [OF pos conjI [OF nine ten]]]])
qed

text \<open>From the conversion to the grid and back.\<close>

lemma imageSize_hexToImage:
  assumes "imageSize (hexToImage wd s w) = Some sz"
  shows "list_all keepChar s" and "imageSize (hexGrid s w) = Some sz"
proof -
  from assms obtain img where res: "hexToImage wd s w = Inr img"
    by (cases "hexToImage wd s w") (simp_all add: imageSize_def)
  from res show "list_all keepChar s" by (rule hexToImage_valid)
  from hexToImage_Inr(2) [OF res] assms res show "imageSize (hexGrid s w) = Some sz"
    by (simp add: imageSize_def)
qed

lemma imageSize_invalid:
  assumes "\<not> list_all keepChar s"
  shows "imageSize (hexToImage wd s w) = None"
proof (cases "imageSize (hexToImage wd s w)")
  case None
  then show ?thesis .
next
  case (Some sz)
  from imageSize_hexToImage(1) [OF this] assms show ?thesis by simp
qed

lemma inferWidth_cases:
  "k * k = length s \<Longrightarrow> inferWidth (int (length s)) 0 = int k"
  "\<nexists>k. k * k = length s \<Longrightarrow> inferWidth (int (length s)) 0 = int (length s)"
  using inferWidth_zero [of "length s"] sqrtUpTo_square [of k] by auto

lemma imageSize_allocated:
  assumes "s \<noteq> []" and "0 < inferWidth (int (length s)) w"
    and "allocatable wd (inferWidth (int (length s)) w)
           \<lceil>real (length s) / real_of_int (inferWidth (int (length s)) w)\<rceil>"
  shows "imageSize (hexToImage wd s w) = imageSize (hexGrid s w)"
proof -
  have "ceilDiv (int (length s)) (inferWidth (int (length s)) w) =
        \<lceil>real (length s) / real_of_int (inferWidth (int (length s)) w)\<rceil>"
    using ceilDiv_ceiling [of "int (length s)" "inferWidth (int (length s)) w"] by simp
  with assms(3) have "allocatable wd (inferWidth (int (length s)) w)
      (ceilDiv (int (length s)) (inferWidth (int (length s)) w))"
    by simp
  moreover from assms(2) have "1 \<le> inferWidth (int (length s)) w" by simp
  ultimately show ?thesis using assms(1) by (simp add: hexToImage_allocated)
qed

text \<open>
  Claim C2, for positive widths and where a grid results. Take a non-empty stream of
  length \<open>n\<close>. When \<open>hexToImage\<close> returns an image for it, the stream consists of hex
  digits and dots and the image has these dimensions: with no width given, \<open>k\<close> by \<open>k\<close>
  when \<open>n = k * k\<close> is a perfect square, and \<open>n\<close> wide and 1 high otherwise; with a
  positive width \<open>w\<close>, \<open>w\<close> wide and \<open>ceil(n / w)\<close> high. A stream of 9 characters gives 3
  by 3, one of 10 characters gives 10 by 1. And \<open>hexToImage\<close> does return an image for
  a stream of hex digits and dots when the pixel buffer of these dimensions can be
  allocated.
\<close>

theorem hexToImage_dimensions:
  assumes "s \<noteq> []"
  shows "(\<forall>sz. imageSize (hexToImage wd s 0) = Some sz \<longrightarrow>
            list_all keepChar s \<and>
            (\<forall>k. k * k = length s \<longrightarrow> sz = (int k, int k)) \<and>
            ((\<nexists>k. k * k = length s) \<longrightarrow> sz = (int (length s), 1)) \<and>
            (length s = 9 \<longrightarrow> sz = (3, 3)) \<and>
            (length s = 10 \<longrightarrow> sz = (10, 1))) \<and>
         (\<forall>w sz. 0 < w \<and> imageSize (hexToImage wd s w) = Some sz \<longrightarrow>
            list_all keepChar s \<and> sz = (w, \<lceil>real (length s) / real_of_int w\<rceil>)) \<and>
         (list_all keepChar s \<longrightarrow>
            (\<forall>k. k * k = length s \<and> allocatable wd (int k) (int k) \<longrightarrow>
               imageSize (hexToImage wd s 0) = Some (int k, int k)) \<and>
            ((\<nexists>k. k * k = length s) \<and> allocatable wd (int (length s)) 1 \<longrightarrow>
               imageSize (hexToImage wd s 0) = Some (int (length s), 1)) \<and>
            (\<forall>w>0. allocatable wd w \<lceil>real (length s) / real_of_int w\<rceil> \<longrightarrow>
               imageSize (hexToImage wd s w) =
                 Some (w, \<lceil>real (length s) / real_of_int w\<rceil>)))"
proof (intro conjI allI impI)
  fix sz assume sz: "imageSize (hexToImage wd s 0) = Some sz"
  note ok = imageSize_hexToImage(1) [OF sz]
  note grid = imageSize_hexToImage(2) [OF sz]
  note dims = dimensions_of_alphabet [OF assms ok]
  show "list_all keepChar s" by (rule ok)
  show "sz = (int k, int k)" if "k * k = length s" for k
    using dims [THEN conjunct1, rule_format, OF that] grid by simp
  show "sz = (int (length s), 1)" if "\<nexists>k. k * k = length s"
    using dims [THEN conjunct2, THEN conjunct1, THEN mp, OF that] grid by simp
  show "sz = (3, 3)" if "length s = 9"
    using dims [THEN conjunct2, THEN conjunct2, THEN conjunct2, THEN conjunct1, THEN mp, OF that]
      grid by simp
  show "sz = (10, 1)" if "length s = 10"
    using dims [THEN conjunct2, THEN conjunct2, THEN conjunct2, THEN conjunct2, THEN mp, OF that]
      grid by simp
next
  fix w sz assume a: "0 < w \<and> imageSize (hexToImage wd s w) = Some sz"
  then have w: "0 < w" and sz: "imageSize (hexToImage wd s w) = Some sz" by simp_all
  note ok = imageSize_hexToImage(1) [OF sz]
  show "list_all keepChar s" by (rule ok)
  from imageSize_positive [OF assms ok w] imageSize_hexToImage(2) [OF sz]
  show "sz = (w, \<lceil>real (length s) / real_of_int w\<rceil>)" by simp
next
  fix k assume ok: "list_all keepChar s"
    and k: "k * k = length s \<and> allocatable wd (int k) (int k)"
  then have kk: "k * k = length s" by simp
  with assms have pos: "0 < k" by (cases k) auto
  note iw = inferWidth_cases(1) [OF kk]
  have c: "\<lceil>real (length s) / real_of_int (int k)\<rceil> = int k"
    using ceiling_square [OF pos] kk by simp
  have p: "0 < inferWidth (int (length s)) 0" using pos by (simp add: iw)
  have al: "allocatable wd (inferWidth (int (length s)) 0)
      \<lceil>real (length s) / real_of_int (inferWidth (int (length s)) 0)\<rceil>"
    using k by (simp only: iw c)
  have "imageSize (hexToImage wd s 0) = imageSize (hexGrid s 0)"
    by (rule imageSize_allocated [OF assms p al])
  with dimensions_of_alphabet [OF assms ok, THEN conjunct1, rule_format, OF kk]
  show "imageSize (hexToImage wd s 0) = Some (int k, int k)" by simp
next
  assume ok: "list_all keepChar s"
    and n: "(\<nexists>k. k * k = length s) \<and> allocatable wd (int (length s)) 1"
  then have ns: "\<nexists>k. k * k = length s" by simp
  note iw = inferWidth_cases(2) [OF ns]
  from assms have pos: "0 < length s" by simp
  have c: "\<lceil>real (length s) / real_of_int (int (length s))\<rceil> = 1"
    using ceiling_self [OF pos] by simp
  have p: "0 < inferWidth (int (length s)) 0" using pos by (simp add: iw)
  have al: "allocatable wd (inferWidth (int (length s)) 0)
      \<lceil>real (length s) / real_of_int (inferWidth (int (length s)) 0)\<rceil>"
    using n by (simp only: iw c)
  have "imageSize (hexToImage wd s 0) = imageSize (hexGrid s 0)"
    by (rule imageSize_allocated [OF assms p al])
  with dimensions_of_alphabet [OF assms ok, THEN conjunct2, THEN conjunct1, THEN mp, OF ns]
  show "imageSize (hexToImage wd s 0) = Some (int (length s), 1)" by simp
next
  fix w :: int assume ok: "list_all keepChar s" and w: "0 < w"
    and al: "allocatable wd w \<lceil>real (length s) / real_of_int w\<rceil>"
  from w have iw: "inferWidth (int (length s)) w = w" by (simp add: inferWidth_nonzero)
  have p: "0 < inferWidth (int (length s)) w" using w by (simp only: iw)
  have al': "allocatable wd (inferWidth (int (length s)) w)
      \<lceil>real (length s) / real_of_int (inferWidth (int (length s)) w)\<rceil>"
    using al by (simp only: iw)
  have "imageSize (hexToImage wd s w) = imageSize (hexGrid s w)"
    by (rule imageSize_allocated [OF assms p al'])
  with imageSize_positive [OF assms ok w]
  show "imageSize (hexToImage wd s w) = Some (w, \<lceil>real (length s) / real_of_int w\<rceil>)"
    by simp
qed

lemma keep_ABC: "keepChar CHR ''A'' \<and> keepChar CHR ''B'' \<and> keepChar CHR ''C'' \<and> keepChar CHR ''D''"
  by (simp add: keepChar_def isHexDigit_def hexDigitValue_def byte_def)

text \<open>Streams of 9 and of 10 characters, the second also at width 4.\<close>

theorem hexToImage_dimensions_witness:
  "imageSize (hexToImage emptyWorld ''ABCDABCDA'' 0) = Some (3, 3) \<and>
   imageSize (hexToImage emptyWorld ''ABCDABCDAB'' 0) = Some (10, 1) \<and>
   imageSize (hexToImage emptyWorld ''ABCDABCDAB'' 4) = Some (4, 3)"
proof -
  have 9: "''ABCDABCDA'' \<noteq> []" "list_all keepChar ''ABCDABCDA''"
    "(3::nat) * 3 = length ''ABCDABCDA'' \<and> allocatable emptyWorld (int 3) (int 3)"
    by (simp_all add: keep_ABC allocatable_def emptyWorld_def)
  have 10: "''ABCDABCDAB'' \<noteq> []" "list_all keepChar ''ABCDABCDAB''"
    "length ''ABCDABCDAB'' = 10"
    by (simp_all add: keep_ABC)
  have c: "\<lceil>real (length ''ABCDABCDAB'') / real_of_int 4\<rceil> = 3" by (simp add: ceiling_eq_iff)
  have ns: "\<nexists>k. k * k = length ''ABCDABCDAB''"
    unfolding 10(3) by (rule not_square_10)
  have "allocatable emptyWorld (int (length ''ABCDABCDAB'')) 1"
    by (simp add: allocatable_def emptyWorld_def)
  with ns have al: "(\<nexists>k. k * k = length ''ABCDABCDAB'') \<and>
            allocatable emptyWorld (int (length ''ABCDABCDAB'')) 1"
    by (rule conjI)
  have al4: "allocatable emptyWorld 4 \<lceil>real (length ''ABCDABCDAB'') / real_of_int 4\<rceil>"
    by (simp only: c) (simp add: allocatable_def emptyWorld_def)
  note a = hexToImage_dimensions [OF 9(1), of emptyWorld, THEN conjunct2, THEN conjunct2,
      THEN mp, OF 9(2)]
  note b = hexToImage_dimensions [OF 10(1), of emptyWorld, THEN conjunct2, THEN conjunct2,
      THEN mp, OF 10(2)]
  have "imageSize (hexToImage emptyWorld ''ABCDABCDA'' 0) = Some (3, 3)"
    using a [THEN conjunct1, rule_format, OF 9(3)] by simp
  moreover have "imageSize (hexToImage emptyWorld ''ABCDABCDAB'' 0) = Some (10, 1)"
    using b [THEN conjunct2, THEN conjunct1, THEN mp, OF al] by simp
  moreover have "imageSize (hexToImage emptyWorld ''ABCDABCDAB'' 4) = Some (4, 3)"
    using b [THEN conjunct2, THEN conjunct2, rule_format, of 4] al4
    by (simp only: c)
  ultimately show ?thesis by blast
qed

text \<open>
  The claim as stated, for every non-empty character stream and every nonzero width,
  fails in three ways. A negative width, which the \<open>int\<close> parameter and the \<open>--width\<close>
  flag admit: for the stream \<open>ABC\<close> and the width \<open>-3\<close> the height computed is
  \<open>ceil(3 / -3) = -1\<close>, \<open>image.Rect\<close> swaps the corners, and the image returned is 3
  wide and 1 high. A width of \<open>2^62\<close>: the length of the pixel buffer does not fit in an
  \<open>int\<close>, \<open>image.NewRGBA\<close> panics and no grid results. And a stream with a character
  that is neither a hex digit nor a dot: the stream \<open>G\<close> gives the error \<open>InvalidDigit\<close>
  and no grid.
\<close>

theorem hexToImage_dimensions_fail:
  "imageSize (hexToImage emptyWorld ''ABC'' (- 3)) = Some (3, 1) \<and>
   \<lceil>(3::real) / (- 3)\<rceil> = (- 1 :: int) \<and>
   hexToImage emptyWorld ''ABC'' (2 ^ 62) = Inl HugeDimensions \<and>
   hexToImage emptyWorld ''G'' 0 = Inl (InvalidDigit CHR ''G'')"
proof (intro conjI)
  show "imageSize (hexToImage emptyWorld ''ABC'' (- 3)) = Some (3, 1)"
    by code_simp
  show "\<lceil>(3::real) / (- 3)\<rceil> = (- 1 :: int)"
    by (simp add: ceiling_eq_iff)
  have "NewRGBA emptyWorld (Rect 0 0 (inferWidth (int (length ''ABC'')) (2 ^ 62))
          (ceilDiv (int (length ''ABC'')) (inferWidth (int (length ''ABC'')) (2 ^ 62)))) =
        Inl HugeDimensions"
    by (simp add: NewRGBA_def inferWidth_def ceilDiv_def Rect_def Dx_def Dy_def goInt_def
        mul3NonNeg_def)
  then show "hexToImage emptyWorld ''ABC'' (2 ^ 62) = Inl HugeDimensions"
    by (intro hexToImage_aborted) simp_all
  have "hexGrid ''G'' 0 = Inl (InvalidDigit CHR ''G'')"
    using hexGrid_invalid [of "''G''" 0]
    by (simp add: keepChar_def isHexDigit_def hexDigitValue_def byte_def)
  moreover have "hexToImage emptyWorld ''G'' 0 = hexGrid ''G'' 0"
    by (intro hexToImage_allocated)
       (simp_all add: inferWidth_def floorSqrt_def ceilDiv_def allocatable_def emptyWorld_def)
  ultimately show "hexToImage emptyWorld ''G'' 0 = Inl (InvalidDigit CHR ''G'')" by simp
qed

section \<open>The partial last row\<close>

lemma ceilDiv_not_dvd:
  assumes "0 < w" and "\<not> w dvd n"
  shows "ceilDiv n w = n div w + 1"
proof -
  define q r c where "q = n div w" and "r = n mod w" and "c = ceilDiv n w"
  have n: "n = w * q + r" by (simp add: q_def r_def)
  have "r \<noteq> 0" using assms(2) by (simp add: r_def dvd_eq_mod_eq_0)
  moreover have "0 \<le> r" "r < w" using assms(1) by (simp_all add: r_def)
  ultimately have r: "0 < r" "r < w" by simp_all
  have lo: "n \<le> w * c" and hi: "w * c < n + w"
    using ceilDiv_bounds [OF assms(1), of n] by (simp_all add: c_def)
  from lo n r have "w * q < w * c" by linarith
  with assms(1) have 1: "q < c" by (simp add: mult_less_cancel_left_pos)
  from hi n r have "w * c < w * (q + 2)" by (simp add: distrib_left)
  with assms(1) have 2: "c < q + 2" by (simp add: mult_less_cancel_left_pos)
  from 1 2 show ?thesis by (simp add: q_def c_def)
qed

lemma partial_row_of_alphabet:
  assumes "0 < w" and "list_all keepChar s" and "\<not> w dvd int (length s)"
  shows "\<exists>img. hexGrid s w = Inr img \<and>
           bounds img = \<lparr>minX = 0, minY = 0, maxX = w,
                          maxY = \<lceil>real (length s) / real_of_int w\<rceil>\<rparr> \<and>
           \<lceil>real (length s) / real_of_int w\<rceil> - 1 = int (length s) div w \<and>
           (\<forall>x. int (length s) mod w \<le> x \<and> x < w \<longrightarrow>
                pointIn x (int (length s) div w) (bounds img) \<and>
                int (length s) \<le> (int (length s) div w) * w + x \<and>
                imgAt img x (int (length s) div w) = RGBA 0 0 0 0) \<and>
           (\<forall>x y. pointIn x y (bounds img) \<and> int (length s) \<le> y * w + x \<longrightarrow>
                imgAt img x y = RGBA 0 0 0 0) \<and>
           cellColor CHR ''.'' = Some (RGBA 0 0 0 0)"
proof -
  let ?n = "int (length s)"
  from assms(3) have ne: "s \<noteq> []" by auto
  obtain img where res: "hexGrid s w = Inr img"
    and b: "bounds img = \<lparr>minX = 0, minY = 0, maxX = w, maxY = ceilDiv (int (length s)) w\<rparr>"
    and "\<forall>k<length s. Some (imgAt img (int k mod w) (int k div w)) = cellColor (s ! k)"
    and beyond: "\<forall>x y. pointIn x y (bounds img) \<longrightarrow> int (length s) \<le> y * w + x \<longrightarrow>
                 imgAt img x y = RGBA 0 0 0 0"
    by (rule hexGrid_positive [OF ne assms(2,1)])
  have c: "ceilDiv ?n w = \<lceil>real (length s) / real_of_int w\<rceil>"
    using ceilDiv_ceiling [of ?n w] by simp
  have h: "ceilDiv ?n w = ?n div w + 1" using assms(1,3) by (rule ceilDiv_not_dvd)
  have q: "0 \<le> ?n div w" using assms(1) by (simp add: pos_imp_zdiv_nonneg_iff)
  have b': "bounds img = \<lparr>minX = 0, minY = 0, maxX = w,
                            maxY = \<lceil>real (length s) / real_of_int w\<rceil>\<rparr>"
    using b c by simp
  have last: "pointIn x (?n div w) (bounds img) \<and> ?n \<le> (?n div w) * w + x \<and>
              imgAt img x (?n div w) = RGBA 0 0 0 0"
    if x: "?n mod w \<le> x \<and> x < w" for x
  proof -
    have "0 \<le> ?n mod w" using assms(1) by simp
    with x have x0: "0 \<le> x" by linarith
    with x q have p: "pointIn x (?n div w) (bounds img)"
      by (simp add: pointIn_def b h)
    have "?n = (?n div w) * w + ?n mod w" by simp
    with x have i: "?n \<le> (?n div w) * w + x" by linarith
    from beyond p i have "imgAt img x (?n div w) = RGBA 0 0 0 0" by blast
    with p i show ?thesis by blast
  qed
  have dot: "cellColor CHR ''.'' = Some (RGBA 0 0 0 0)" by (simp add: cellColor_def)
  have hm: "\<lceil>real (length s) / real_of_int w\<rceil> - 1 = ?n div w"
    using c h by simp
  from res b' hm last beyond dot show ?thesis by blast
qed

text \<open>
  Claim C10, for positive widths. Let the length \<open>n\<close> of a stream not be a multiple of
  the positive width \<open>w\<close>. The image that \<open>hexToImage\<close> returns, when it returns one, is
  the full rectangle from the origin, \<open>w\<close> wide and \<open>ceil(n / w)\<close> high. Its last row is
  row \<open>n div w\<close>; every point of that row from column \<open>n mod w\<close> on lies in the
  rectangle, has an index of at least \<open>n\<close>, and is \<open>RGBA(0,0,0,0)\<close>, the colour of the
  dot. So is every point of the rectangle whose index is at least \<open>n\<close>. An image is
  returned when all characters are hex digits or dots and the pixel buffer can be
  allocated, and none is returned for a stream with any other character.
\<close>

theorem partial_row_transparent:
  assumes "0 < w" and "\<not> w dvd int (length s)"
  shows "(\<forall>img. hexToImage wd s w = Inr img \<longrightarrow>
            bounds img = \<lparr>minX = 0, minY = 0, maxX = w,
                           maxY = \<lceil>real (length s) / real_of_int w\<rceil>\<rparr> \<and>
            \<lceil>real (length s) / real_of_int w\<rceil> - 1 = int (length s) div w \<and>
            (\<forall>x. int (length s) mod w \<le> x \<and> x < w \<longrightarrow>
                 pointIn x (int (length s) div w) (bounds img) \<and>
                 int (length s) \<le> (int (length s) div w) * w + x \<and>
                 imgAt img x (int (length s) div w) = RGBA 0 0 0 0) \<and>
            (\<forall>x y. pointIn x y (bounds img) \<and> int (length s) \<le> y * w + x \<longrightarrow>
                 imgAt img x y = RGBA 0 0 0 0)) \<and>
         cellColor CHR ''.'' = Some (RGBA 0 0 0 0) \<and>
         (list_all keepChar s \<and> allocatable wd w \<lceil>real (length s) / real_of_int w\<rceil> \<longrightarrow>
            (\<exists>img. hexToImage wd s w = Inr img)) \<and>
         (\<not> list_all keepChar s \<longrightarrow> (\<forall>img. hexToImage wd s w \<noteq> Inr img))"
proof (intro conjI)
  show "\<forall>img. hexToImage wd s w = Inr img \<longrightarrow>
            bounds img = \<lparr>minX = 0, minY = 0, maxX = w,
                           maxY = \<lceil>real (length s) / real_of_int w\<rceil>\<rparr> \<and>
            \<lceil>real (length s) / real_of_int w\<rceil> - 1 = int (length s) div w \<and>
            (\<forall>x. int (length s) mod w \<le> x \<and> x < w \<longrightarrow>
                 pointIn x (int (length s) div w) (bounds img) \<and>
                 int (length s) \<le> (int (length s) div w) * w + x \<and>
                 imgAt img x (int (length s) div w) = RGBA 0 0 0 0) \<and>
            (\<forall>x y. pointIn x y (bounds img) \<and> int (length s) \<le> y * w + x \<longrightarrow>
                 imgAt img x y = RGBA 0 0 0 0)"
  proof (intro allI impI)
    fix img assume res: "hexToImage wd s w = Inr img"
    note ok = hexToImage_valid [OF res]
    note grid = hexToImage_Inr(2) [OF res]
    from partial_row_of_alphabet [OF assms(1) ok assms(2)] obtain img' where
      g: "hexGrid s w = Inr img'"
      and p: "bounds img' = \<lparr>minX = 0, minY = 0, maxX = w,
                           maxY = \<lceil>real (length s) / real_of_int w\<rceil>\<rparr> \<and>
            \<lceil>real (length s) / real_of_int w\<rceil> - 1 = int (length s) div w \<and>
            (\<forall>x. int (length s) mod w \<le> x \<and> x < w \<longrightarrow>
                 pointIn x (int (length s) div w) (bounds img') \<and>
                 int (length s) \<le> (int (length s) div w) * w + x \<and>
                 imgAt img' x (int (length s) div w) = RGBA 0 0 0 0) \<and>
            (\<forall>x y. pointIn x y (bounds img') \<and> int (length s) \<le> y * w + x \<longrightarrow>
                 imgAt img' x y = RGBA 0 0 0 0)"
      by blast
    from g grid have eq: "img' = img" by simp
    from p show "bounds img = \<lparr>minX = 0, minY = 0, maxX = w,
                           maxY = \<lceil>real (length s) / real_of_int w\<rceil>\<rparr> \<and>
            \<lceil>real (length s) / real_of_int w\<rceil> - 1 = int (length s) div w \<and>
            (\<forall>x. int (length s) mod w \<le> x \<and> x < w \<longrightarrow>
                 pointIn x (int (length s) div w) (bounds img) \<and>
                 int (length s) \<le> (int (length s) div w) * w + x \<and>
                 imgAt img x (int (length s) div w) = RGBA 0 0 0 0) \<and>
            (\<forall>x y. pointIn x y (bounds img) \<and> int (length s) \<le> y * w + x \<longrightarrow>
                 imgAt img x y = RGBA 0 0 0 0)"
      unfolding eq .
  qed
  show "cellColor CHR ''.'' = Some (RGBA 0 0 0 0)" by (simp add: cellColor_def)
  show "list_all keepChar s \<and> allocatable wd w \<lceil>real (length s) / real_of_int w\<rceil> \<longrightarrow>
            (\<exists>img. hexToImage wd s w = Inr img)"
  proof
    assume a: "list_all keepChar s \<and> allocatable wd w \<lceil>real (length s) / real_of_int w\<rceil>"
    from assms(2) have ne: "s \<noteq> []" by auto
    from assms(1) have iw: "inferWidth (int (length s)) w = w" by (simp add: inferWidth_nonzero)
    have c: "ceilDiv (int (length s)) w = \<lceil>real (length s) / real_of_int w\<rceil>"
      using ceilDiv_ceiling [of "int (length s)" w] by simp
    from a have "allocatable wd (inferWidth (int (length s)) w)
        (ceilDiv (int (length s)) (inferWidth (int (length s)) w))"
      by (simp only: iw c)
    moreover from assms(1) have "0 \<le> w" by simp
    ultimately show "\<exists>img. hexToImage wd s w = Inr img"
      using ne a by (intro hexToImage_returns) simp_all
  qed
  show "\<not> list_all keepChar s \<longrightarrow> (\<forall>img. hexToImage wd s w \<noteq> Inr img)"
    using hexToImage_valid by blast
qed

text \<open>Four characters at width 3: the last two points of the second row.\<close>

theorem partial_row_transparent_witness:
  "pixelAt (hexToImage emptyWorld ''ABCD'' 3) 1 1 = Some (RGBA 0 0 0 0) \<and>
   pixelAt (hexToImage emptyWorld ''ABCD'' 3) 2 1 = Some (RGBA 0 0 0 0) \<and>
   imageSize (hexToImage emptyWorld ''ABCD'' 3) = Some (3, 2)"
proof -
  have w: "(0::int) < 3" by simp
  have nd: "\<not> (3::int) dvd int (length ''ABCD'')" by simp
  have cl: "\<lceil>real (length ''ABCD'') / real_of_int 3\<rceil> = 2" by (simp add: ceiling_eq_iff)
  have dv: "int (length ''ABCD'') div 3 = 1" "int (length ''ABCD'') mod 3 = 1" by simp_all
  note t = partial_row_transparent [OF w nd, of emptyWorld]
  have "list_all keepChar ''ABCD'' \<and>
        allocatable emptyWorld 3 \<lceil>real (length ''ABCD'') / real_of_int 3\<rceil>"
    by (simp only: cl) (simp add: keep_ABC allocatable_def emptyWorld_def)
  from t [THEN conjunct2, THEN conjunct2, THEN conjunct1, THEN mp, OF this]
  obtain img where res: "hexToImage emptyWorld ''ABCD'' 3 = Inr img" by blast
  from t [THEN conjunct1, rule_format, OF res]
  have b: "bounds img = \<lparr>minX = 0, minY = 0, maxX = 3, maxY = 2\<rparr>"
    and px: "\<forall>x. 1 \<le> x \<and> x < 3 \<longrightarrow>
                pointIn x 1 (bounds img) \<and> int (length ''ABCD'') \<le> 1 * 3 + x \<and>
                imgAt img x 1 = RGBA 0 0 0 0"
    unfolding cl dv by blast+
  from px [rule_format, of 1] px [rule_format, of 2] res b show ?thesis
    by (simp add: pixelAt_def imageSize_def Dx_def Dy_def)
qed

text \<open>
  The claim as stated fails for a negative width and for a width too large for the
  pixel buffer. 4 is not a multiple of \<open>-3\<close>, and the image returned for \<open>ABCD\<close> is 3
  wide and 1 high, not \<open>-3\<close> wide and \<open>ceil(4 / -3) = -1\<close> high. And 4 is not a multiple
  of \<open>2^62\<close>, a width at which \<open>image.NewRGBA\<close> panics and no image is returned.
\<close>

theorem partial_row_fails:
  "imageSize (hexToImage emptyWorld ''ABCD'' (- 3)) = Some (3, 1) \<and> \<not> (- 3 :: int) dvd 4 \<and>
   \<lceil>(4::real) / (- 3)\<rceil> = (- 1 :: int) \<and>
   hexToImage emptyWorld ''ABCD'' (2 ^ 62) = Inl HugeDimensions \<and> \<not> (2 ^ 62 :: int) dvd 4"
proof (intro conjI)
  show "imageSize (hexToImage emptyWorld ''ABCD'' (- 3)) = Some (3, 1)"
    by code_simp
  show "\<not> (- 3 :: int) dvd 4" by simp
  show "\<lceil>(4::real) / (- 3)\<rceil> = (- 1 :: int)"
    by (simp add: ceiling_eq_iff)
  have "NewRGBA emptyWorld (Rect 0 0 (inferWidth (int (length ''ABCD'')) (2 ^ 62))
          (ceilDiv (int (length ''ABCD'')) (inferWidth (int (length ''ABCD'')) (2 ^ 62)))) =
        Inl HugeDimensions"
    by (simp add: NewRGBA_def inferWidth_def ceilDiv_def Rect_def Dx_def Dy_def goInt_def
        mul3NonNeg_def)
  then show "hexToImage emptyWorld ''ABCD'' (2 ^ 62) = Inl HugeDimensions"
    by (intro hexToImage_aborted) simp_all
  show "\<not> (2 ^ 62 :: int) dvd 4" by (simp add: zdvd_not_zless)
qed

section \<open>Header lines\<close>

lemma contentLines_append: "contentLines (xs @ ys) = contentLines xs @ contentLines ys"
  by (simp add: contentLines_def)

lemma contentLines_drop_header:
  "isHeader h \<Longrightarrow> contentLines (xs @ h # ys) = contentLines (xs @ ys)"
  by (simp add: contentLines_def)

lemma recoveredName_drop_header:
  "\<not> isFileHeader h \<Longrightarrow> recoveredName (xs @ h # ys) = recoveredName (xs @ ys)"
  by (simp add: recoveredName_def)

lemma scanLines_insert_line:
  assumes "a = [] \<or> last a = CHR 0x0A" and "CHR 0x0A \<notin> set h"
  shows "scanLines (a @ h @ newline @ b) = scanLines a @ h # scanLines b"
    and "scanLines (a @ b) = scanLines a @ scanLines b"
proof -
  have "scanLines (h @ newline @ b) = h # scanLines b"
    using scanLines_line [OF assms(2), of b] by (simp add: newline_def)
  then show "scanLines (a @ h @ newline @ b) = scanLines a @ h # scanLines b"
    using scanLines_append [OF assms(1), of "h @ newline @ b"] by simp
  show "scanLines (a @ b) = scanLines a @ scanLines b"
    using assms(1) by (rule scanLines_append)
qed

lemma parseContent_drop_header:
  assumes "a = [] \<or> last a = CHR 0x0A" and "CHR 0x0A \<notin> set h"
    and "length h < MaxScanTokenSize" and "isHeader h" and "\<not> isFileHeader h"
  shows "parseContent (a @ h @ newline @ b) = parseContent (a @ b)"
proof -
  note lines = scanLines_insert_line [OF assms(1,2), of b]
  show ?thesis
  proof (cases "\<forall>l \<in> set (scanLines (a @ b)). length l < MaxScanTokenSize")
    case True
    with assms(3) have "\<forall>l \<in> set (scanLines (a @ h @ newline @ b)). length l < MaxScanTokenSize"
      by (auto simp: lines)
    from parseContent_lines [OF this] parseContent_lines [OF True] show ?thesis
      by (simp add: lines declaredWidth_def contentLines_drop_header [OF assms(4)]
          recoveredName_drop_header [OF assms(5)])
  next
    case False
    then have long: "\<exists>l \<in> set (scanLines (a @ b)). MaxScanTokenSize \<le> length l"
      by (auto simp: not_less)
    then have "\<exists>l \<in> set (scanLines (a @ h @ newline @ b)). MaxScanTokenSize \<le> length l"
      by (auto simp: lines)
    from parseContent_too_long [OF this] parseContent_too_long [OF long] show ?thesis by simp
  qed
qed

text \<open>
  Claim C6, for lines that the scanner reads. A text none of whose lines is too long
  for the scanner (65536 bytes or more) parses to the
  filtered concatenation of its processed, non-empty content lines, to the length of
  the first of them as the declared width (0 when there is none), and to the trimmed
  value of its last \<open>file:\<close> header as the recovered file name (empty when there is
  none). No other header line takes part: a header line of fewer than 65536 bytes that
  is not a \<open>file:\<close> header, such as a \<open>width\<close>, \<open>height\<close> or \<open>generator\<close> line, can be
  put into a text or taken out of it without any change to the result of the parse.
  A text with a line of 65536 bytes or more does not parse: the result is
  \<open>ErrTooLong\<close>.
\<close>

theorem header_lines_informational:
  "((\<forall>l \<in> set (scanLines content). length l < MaxScanTokenSize) \<longrightarrow>
      parseContent content =
        Inr (filterHexString (concat (contentLines (scanLines content))),
             declaredWidth (scanLines content), recoveredName (scanLines content))) \<and>
   ((a = [] \<or> last a = CHR 0x0A) \<and> CHR 0x0A \<notin> set h \<and> length h < MaxScanTokenSize \<and>
    isHeader h \<and> \<not> isFileHeader h \<longrightarrow>
      parseContent (a @ h @ newline @ b) = parseContent (a @ b)) \<and>
   (contentLines ls = [] \<longrightarrow> declaredWidth ls = 0) \<and>
   (contentLines ls \<noteq> [] \<longrightarrow> declaredWidth ls = int (length (hd (contentLines ls)))) \<and>
   (filter isFileHeader ls = [] \<longrightarrow> recoveredName ls = []) \<and>
   (filter isFileHeader ls \<noteq> [] \<longrightarrow>
      recoveredName ls = fileHeaderValue (last (filter isFileHeader ls))) \<and>
   ((\<exists>l \<in> set (scanLines content). MaxScanTokenSize \<le> length l) \<longrightarrow>
      parseContent content = Inl ErrTooLong)"
proof (intro conjI impI)
  show "parseContent content = Inl ErrTooLong"
    if "\<exists>l \<in> set (scanLines content). MaxScanTokenSize \<le> length l"
    using that by (rule parseContent_too_long)
  show "parseContent content =
        Inr (filterHexString (concat (contentLines (scanLines content))),
             declaredWidth (scanLines content), recoveredName (scanLines content))"
    if "\<forall>l \<in> set (scanLines content). length l < MaxScanTokenSize"
    using that by (rule parseContent_lines)
  show "parseContent (a @ h @ newline @ b) = parseContent (a @ b)"
    if "(a = [] \<or> last a = CHR 0x0A) \<and> CHR 0x0A \<notin> set h \<and> length h < MaxScanTokenSize \<and>
        isHeader h \<and> \<not> isFileHeader h"
    using that by (intro parseContent_drop_header) simp_all
  show "declaredWidth ls = 0" if "contentLines ls = []"
    using that by (simp add: declaredWidth_def)
  show "declaredWidth ls = int (length (hd (contentLines ls)))" if "contentLines ls \<noteq> []"
    using that by (cases "contentLines ls") (simp_all add: declaredWidth_def)
  show "recoveredName ls = []" if "filter isFileHeader ls = []"
    using that by (simp add: recoveredName_def)
  show "recoveredName ls = fileHeaderValue (last (filter isFileHeader ls))"
    if "filter isFileHeader ls \<noteq> []"
  proof -
    from that have "rev (filter isFileHeader ls) \<noteq> []" by simp
    then obtain x xs where r: "rev (filter isFileHeader ls) = x # xs"
      by (cases "rev (filter isFileHeader ls)") auto
    then have "last (filter isFileHeader ls) = x"
      using that by (simp add: last_rev [symmetric] del: rev_is_Nil_conv)
    with r show ?thesis by (simp add: recoveredName_def)
  qed
qed


lemma example_lines:
  "scanLines (''# File: inv.png '' @ newline @ ''# width: 5'' @ newline @
              ''AB C # note'' @ newline @ ''12.'' @ newline) =
     [''# File: inv.png '', ''# width: 5'', ''AB C # note'', ''12.'']"
  by (simp add: newline_def)

lemma example_parts:
  "filterHexString (concat (contentLines
       [''# File: inv.png '', ''# width: 5'', ''AB C # note'', ''12.''])) = ''ABC12.''"
  "declaredWidth [''# File: inv.png '', ''# width: 5'', ''AB C # note'', ''12.''] = 3"
  "recoveredName [''# File: inv.png '', ''# width: 5'', ''AB C # note'', ''12.''] = ''inv.png''"
  "isHeader ''# width: 5''" "\<not> isFileHeader ''# width: 5''"
  by code_simp+

text \<open>
  A text whose \<open>width\<close> header says 5 and whose first content line has 3 characters;
  and a \<open>width\<close> header taken out of a text.
\<close>

theorem header_lines_informational_witness:
  "parseContent (''# File: inv.png '' @ newline @ ''# width: 5'' @ newline @
                 ''AB C # note'' @ newline @ ''12.'' @ newline) =
     Inr (''ABC12.'', 3, ''inv.png'') \<and>
   parseContent (''# width: 5'' @ newline @ ''ABC'' @ newline) = parseContent (''ABC'' @ newline)"
proof
  let ?content = "''# File: inv.png '' @ newline @ ''# width: 5'' @ newline @
                  ''AB C # note'' @ newline @ ''12.'' @ newline"
  have short: "\<forall>l \<in> set (scanLines ?content). length l < MaxScanTokenSize"
    by (simp only: example_lines) (simp add: MaxScanTokenSize_def)
  from header_lines_informational [of ?content "[]" "[]" "[]" "[]", THEN conjunct1, THEN mp,
      OF short]
  show "parseContent ?content = Inr (''ABC12.'', 3, ''inv.png'')"
    by (simp only: example_lines example_parts)
next
  have "([] = [] \<or> last [] = CHR 0x0A) \<and> CHR 0x0A \<notin> set ''# width: 5'' \<and>
        length ''# width: 5'' < MaxScanTokenSize \<and>
        isHeader ''# width: 5'' \<and> \<not> isFileHeader ''# width: 5''"
    by (simp add: example_parts MaxScanTokenSize_def)
  from header_lines_informational [of "[]" "[]" "''# width: 5''" "''ABC'' @ newline" "[]",
      THEN conjunct2, THEN conjunct1, THEN mp, OF this]
  show "parseContent (''# width: 5'' @ newline @ ''ABC'' @ newline) =
        parseContent (''ABC'' @ newline)"
    by simp
qed

lemma short_example_lines: "scanLines (''ABC'' @ newline) = [''ABC'']"
  by (simp add: newline_def)

lemma short_example_parts:
  "filterHexString (concat (contentLines [''ABC''])) = ''ABC''"
  "declaredWidth [''ABC''] = 3" "recoveredName [''ABC''] = []"
  by code_simp+

text \<open>
  The claim as stated, for every \<open>width\<close> header line, fails on a line that the scanner
  cannot read. The text of the single row \<open>ABC\<close> parses to that row at the width 3.
  With a \<open>width\<close> header line of 65545 bytes in front of the row, the parse returns
  \<open>ErrTooLong\<close> and neither a stream nor a width: the header line is not discarded
  without effect.
\<close>

theorem header_line_too_long:
  "parseContent (''ABC'' @ newline) = Inr (''ABC'', 3, []) \<and>
   parseContent (''# width: '' @ replicate 65536 CHR ''9'' @ newline @ ''ABC'' @ newline) =
     Inl ErrTooLong \<and>
   isHeader (''# width: '' @ replicate 65536 CHR ''9'') \<and>
   \<not> isFileHeader (''# width: '' @ replicate 65536 CHR ''9'')"
proof (intro conjI)
  have short: "\<forall>l \<in> set (scanLines (''ABC'' @ newline)). length l < MaxScanTokenSize"
    by (simp only: short_example_lines) (simp add: MaxScanTokenSize_def)
  from parseContent_lines [OF short]
  show "parseContent (''ABC'' @ newline) = Inr (''ABC'', 3, [])"
    by (simp only: short_example_lines short_example_parts)
  let ?h = "''# width: '' @ replicate 65536 CHR ''9''"
  have nl: "CHR 0x0A \<notin> set ?h" by simp
  have "scanLines (?h @ CHR 0x0A # ''ABC'' @ newline) = ?h # scanLines (''ABC'' @ newline)"
    using nl by (rule scanLines_line)
  moreover have "MaxScanTokenSize \<le> length ?h" by (simp add: MaxScanTokenSize_def)
  ultimately have "\<exists>l \<in> set (scanLines (?h @ CHR 0x0A # ''ABC'' @ newline)).
      MaxScanTokenSize \<le> length l"
    by simp
  from parseContent_too_long [OF this]
  have "parseContent (?h @ CHR 0x0A # ''ABC'' @ newline) = Inl ErrTooLong" .
  moreover have "''# width: '' @ replicate 65536 CHR ''9'' @ newline @ ''ABC'' @ newline =
      ?h @ CHR 0x0A # ''ABC'' @ newline"
    by (simp add: newline_def)
  ultimately
  show "parseContent (''# width: '' @ replicate 65536 CHR ''9'' @ newline @ ''ABC'' @ newline) =
      Inl ErrTooLong"
    by (simp only:)
  have tr: "TrimRightCR ?h = ?h"
    by (simp add: TrimRightCR_def)
  show "isHeader ?h"
    by (simp only: isHeader_def tr) (simp add: HasPrefix_def)
  have "\<not> lowerHasPrefix ?h ''# file:''"
    by (simp add: lowerHasPrefix.simps lowersTo_def lowerByte_def byte_def
       )
  then show "\<not> isFileHeader ?h"
    by (simp only: isFileHeader_def tr) simp
qed

section \<open>Direct-string mode\<close>

lemma stripHexPrefix_eq:
  "stripHexPrefix t = (if HasPrefix t ''0x'' \<or> HasPrefix t ''0X'' then drop 2 t else t)"
proof (cases t)
  case Nil
  then show ?thesis by (simp add: stripHexPrefix_def HasPrefix_def)
next
  case (Cons c t')
  then show ?thesis
    by (cases t') (auto simp: stripHexPrefix_def HasPrefix_def)
qed

text \<open>
  Claim C8. When the input is not the path of an existing file, a width of 0 (the
  default of the flag, so also the unset width) ends the program with the error that
  asks for \<open>--width\<close>, whatever the input string: the string is not looked at, so no
  decoding is attempted. With a nonzero width the program trims the string, strips a
  leading \<open>0x\<close> or \<open>0X\<close>, filters what is left and decodes and saves that.
\<close>

theorem direct_string_mode:
  assumes "args fl = input # others" and "\<not> fileExists wd input"
  shows "(widthFlag fl = 0 \<longrightarrow> main wd fl = Failed WidthRequired) \<and>
         (widthFlag fl \<noteq> 0 \<longrightarrow>
            main wd fl =
              decodeAndSave wd fl (filterHexString (stripHexPrefix (TrimSpace input)))) \<and>
         (\<forall>digits. stripHexPrefix (''0x'' @ digits) = digits \<and>
                   stripHexPrefix (''0X'' @ digits) = digits)"
proof (intro conjI impI allI)
  from assms have m: "main wd fl = directStringMode wd fl input"
    by (simp add: main_def Let_def)
  show "main wd fl = Failed WidthRequired" if "widthFlag fl = 0"
    using that by (simp add: m directStringMode_def)
  show "main wd fl = decodeAndSave wd fl (filterHexString (stripHexPrefix (TrimSpace input)))"
    if "widthFlag fl \<noteq> 0"
    using that
    by (simp add: m directStringMode_def decodeAndSave_def stripHexPrefix_eq Let_def
        split: sum.splits)
  show "stripHexPrefix (''0x'' @ digits) = digits" for digits
    by (simp add: stripHexPrefix_def)
  show "stripHexPrefix (''0X'' @ digits) = digits" for digits
    by (simp add: stripHexPrefix_def)
qed

lemma trim_examples: "TrimSpace '' 0xAB'' = ''0xAB''" "TrimSpace ''0x'' = ''0x''"
  by code_simp+

text \<open>
  No file exists. Without a width the string is refused; with width 2 the string \<open>0x\<close>
  is empty once its prefix is stripped (unstripped, its \<open>0\<close> would be a pixel).
\<close>

theorem direct_string_mode_witness:
  "main emptyWorld (defaultFlags ['' 0xAB'']) = Failed WidthRequired \<and>
   main emptyWorld ((defaultFlags [''0x''])\<lparr>widthFlag := 2\<rparr>) =
     Failed (ConvertingHexStringToImage EmptyInput)"
proof
  have a: "args (defaultFlags ['' 0xAB'']) = '' 0xAB'' # []"
    and e: "\<not> fileExists emptyWorld '' 0xAB''"
    and z: "widthFlag (defaultFlags ['' 0xAB'']) = 0"
    by (simp_all add: defaultFlags_def emptyWorld_def)
  from direct_string_mode [OF a e, THEN conjunct1, THEN mp, OF z]
  show "main emptyWorld (defaultFlags ['' 0xAB'']) = Failed WidthRequired" .
next
  let ?fl = "(defaultFlags [''0x''])\<lparr>widthFlag := 2\<rparr>"
  have a: "args ?fl = ''0x'' # []"
    and e: "\<not> fileExists emptyWorld ''0x''"
    and z: "widthFlag ?fl \<noteq> 0"
    by (simp_all add: defaultFlags_def emptyWorld_def)
  have "filterHexString (stripHexPrefix (TrimSpace ''0x'')) = []"
    by (simp add: trim_examples stripHexPrefix_def filterHexString_def)
  with direct_string_mode [OF a e, THEN conjunct2, THEN conjunct1, THEN mp, OF z]
  show "main emptyWorld ?fl = Failed (ConvertingHexStringToImage EmptyInput)"
    by (simp add: decodeAndSave_def hexToImage_def aborts_def)
qed

section \<open>The digit 8\<close>

lemma format_index:
  "\<forall>k<16. ToUpperASCII (FormatInt (int k) 16) = [hexDigitsUpper ! k]"
  by (simp only: all_less_16) code_simp

lemma index_chars:
  "\<forall>k<16. cellColor (hexDigitsUpper ! k) = Some (ZXPalette ! k) \<and>
           keepChar (hexDigitsUpper ! k) \<and> byte (hexDigitsUpper ! k) < 128 \<and>
           hexDigitsUpper ! k \<notin> set ''# '' \<and> hexDigitsUpper ! k \<noteq> CHR 0x09 \<and>
           hexDigitsUpper ! k \<noteq> CHR 0x0A \<and> hexDigitsUpper ! k \<noteq> CHR 0x0D \<and>
           (k \<noteq> 8 \<longrightarrow> hexDigitsUpper ! k \<noteq> CHR ''8'')"
  by (simp only: all_less_16) code_simp

lemma quantize_reachable: "reachableCell (quantize cfg c)"
proof -
  obtain r g b a where rgba: "colorRGBA c = (r, g, b, a)" by (cases "colorRGBA c")
  obtain k where nc: "nearestColor r g b = int k" and k: "k < 16"
    and "\<forall>j<16. pixelDist r g b k \<le> pixelDist r g b j"
    and "\<forall>j<k. pixelDist r g b k < pixelDist r g b j"
    by (rule nearestColor_index)
  with nearestColor_not_8 [of r g b] have "k \<noteq> 8" by auto
  with nc k rgba show ?thesis by (simp add: quantize_def reachableCell_def)
qed

lemma encodePixel_cell: "encodePixel cfg c = [cellChar (quantize cfg c)]"
proof -
  obtain r g b a where rgba: "colorRGBA c = (r, g, b, a)" by (cases "colorRGBA c")
  obtain k where nc: "nearestColor r g b = int k" and k: "k < 16"
    and "\<forall>j<16. pixelDist r g b k \<le> pixelDist r g b j"
    and "\<forall>j<k. pixelDist r g b k < pixelDist r g b j"
    by (rule nearestColor_index)
  from k format_index have "ToUpperASCII (FormatInt (int k) 16) = [hexDigitsUpper ! k]"
    by blast
  with rgba nc show ?thesis
    by (simp add: encodePixel_def quantize_def cellChar_def)
qed

lemma cellChar_facts:
  assumes "reachableCell cl"
  shows "cellColor (cellChar cl) = Some (render cl)" and "keepChar (cellChar cl)"
    and "byte (cellChar cl) < 128" and "cellChar cl \<notin> set ''# ''"
    and "cellChar cl \<noteq> CHR 0x09" and "cellChar cl \<noteq> CHR 0x0A" and "cellChar cl \<noteq> CHR 0x0D"
    and "cellChar cl \<noteq> CHR ''8''"
proof -
  have dot: "cellColor CHR ''.'' = Some (RGBA 0 0 0 0) \<and> keepChar CHR ''.'' \<and>
             byte CHR ''.'' < 128"
    by (simp add: cellColor_def keepChar_def byte_def)
  show "cellColor (cellChar cl) = Some (render cl)" and "keepChar (cellChar cl)"
    and "byte (cellChar cl) < 128" and "cellChar cl \<notin> set ''# ''"
    and "cellChar cl \<noteq> CHR 0x09" and "cellChar cl \<noteq> CHR 0x0A" and "cellChar cl \<noteq> CHR 0x0D"
    and "cellChar cl \<noteq> CHR ''8''"
    using assms dot index_chars
    by (cases cl; simp add: reachableCell_def cellChar_def render_def)+
qed

lemma encodeRow_cells:
  "encodeRow cfg rgba y =
     map (\<lambda>x. cellChar (quantize cfg (imgAt rgba x y)))
         [minX (bounds rgba) .. maxX (bounds rgba) - 1]"
proof -
  have "concat (map (\<lambda>x. encodePixel cfg (imgAt rgba x y)) xs) =
        map (\<lambda>x. cellChar (quantize cfg (imgAt rgba x y))) xs" for xs
    by (induction xs) (simp_all add: encodePixel_cell)
  then show ?thesis by (simp add: encodeRow_def)
qed

lemma encodePixel_no_8: "CHR ''8'' \<notin> set (encodePixel cfg c)"
  using cellChar_facts(8) [OF quantize_reachable, of cfg c] by (auto simp: encodePixel_cell)

lemma encodeRow_no_8: "CHR ''8'' \<notin> set (encodeRow cfg rgba y)"
  using encodePixel_no_8 by (auto simp: encodeRow_def)

subsection \<open>The image that is encoded\<close>

lemma bounds_Draw [simp]: "bounds (Draw dst src) = bounds dst"
  by (simp add: Draw_def)

lemma imgAt_Draw:
  "bounds src = r \<Longrightarrow> imgAt (Draw (zeroImage r) src) x y = imgAt src x y"
  by (simp add: imgAt_def Draw_def zeroImage_def)

lemma bounds_zeroImage [simp]: "bounds (zeroImage r) = r"
  by (simp add: zeroImage_def)

lemma encodeRow_Draw:
  "encodeRow cfg (Draw (zeroImage (bounds img)) img) y = encodeRow cfg img y"
  by (simp add: encodeRow_def imgAt_Draw)

text \<open>
  The text of a file that decodes in a supported format: none when \<open>image.NewRGBA\<close>
  aborts the run, otherwise the header block and the rows of the decoded image.
\<close>

lemma imageToHex_unfold:
  assumes "openImage wd filename = Inr (format, rgba)" and "supportedFormat format"
  shows "imageToHex cfg wd filename =
           (case NewRGBA wd (bounds rgba) of
              Inl err \<Rightarrow> Inl err
            | Inr fresh \<Rightarrow>
                Inr (headerBlock filename (bounds rgba) @
                     concat (map (\<lambda>y. encodeRow cfg rgba y @ newline)
                                 [minY (bounds rgba) .. maxY (bounds rgba) - 1])))"
proof (cases "NewRGBA wd (bounds rgba)")
  case (Inl e)
  with assms show ?thesis by (simp add: imageToHex_def)
next
  case (Inr fresh)
  from NewRGBA_Inr [OF Inr] Inr assms show ?thesis
    by (simp add: imageToHex_def headerBlock_def Let_def encodeRow_Draw)
qed

lemma imageToHex_Inr:
  assumes "imageToHex cfg wd filename = Inr out"
  obtains format rgba where "openImage wd filename = Inr (format, rgba)"
    and "supportedFormat format"
    and "NewRGBA wd (bounds rgba) = Inr (zeroImage (bounds rgba))"
    and "out = headerBlock filename (bounds rgba) @
                concat (map (\<lambda>y. encodeRow cfg rgba y @ newline)
                            [minY (bounds rgba) .. maxY (bounds rgba) - 1])"
proof (cases "openImage wd filename")
  case (Inl e)
  with assms show thesis by (simp add: imageToHex_def)
next
  case (Inr p)
  obtain format rgba where p: "p = (format, rgba)" by (cases p)
  with Inr have o: "openImage wd filename = Inr (format, rgba)" by simp
  from assms o have s: "supportedFormat format"
    by (simp add: imageToHex_def split: if_splits)
  show thesis
  proof (cases "NewRGBA wd (bounds rgba)")
    case (Inl e)
    with assms show thesis by (simp add: imageToHex_unfold [OF o s])
  next
    case (Inr fresh)
    from NewRGBA_Inr [OF Inr] Inr have n: "NewRGBA wd (bounds rgba) = Inr (zeroImage (bounds rgba))"
      by simp
    with assms have "out = headerBlock filename (bounds rgba) @
                concat (map (\<lambda>y. encodeRow cfg rgba y @ newline)
                            [minY (bounds rgba) .. maxY (bounds rgba) - 1])"
      by (simp add: imageToHex_unfold [OF o s])
    with o s n show thesis by (rule that)
  qed
qed

lemma imageToRawHex_no_8: "CHR ''8'' \<notin> set (outputText (imageToRawHex cfg wd filename))"
proof (cases "imageToRawHex cfg wd filename")
  case (Inl e)
  then show ?thesis by (simp add: outputText_def)
next
  case (Inr out)
  then obtain rgba fresh where
    "out = concat (map (\<lambda>y. encodeRow cfg (Draw fresh rgba) y)
                       [minY (bounds rgba) .. maxY (bounds rgba) - 1]) @ newline"
    by (auto simp: imageToRawHex_def Let_def split: sum.splits if_splits)
  with Inr show ?thesis
    by (auto simp: outputText_def newline_def encodeRow_no_8)
qed

text \<open>
  Claim C9, for the pixels. \<open>nearestColor\<close> never returns 8; the digit \<open>8\<close> is in no
  encoded pixel, so nowhere in the output of \<open>imageToRawHex\<close> and nowhere in the rows
  that follow the header block in the output of \<open>imageToHex\<close>: that output, for a file
  that decodes in a supported format, is the header block and rows without an \<open>8\<close>,
  unless \<open>image.NewRGBA\<close> aborts the run; and every text that \<open>imageToHex\<close> returns
  is of that form.
\<close>

theorem digit_8_never_encoded:
  "nearestColor r g b \<noteq> 8 \<and>
   CHR ''8'' \<notin> set (encodePixel cfg c) \<and>
   CHR ''8'' \<notin> set (outputText (imageToRawHex cfg wd filename)) \<and>
   (\<forall>format rgba. openImage wd filename = Inr (format, rgba) \<and> supportedFormat format \<longrightarrow>
      (\<exists>body. CHR ''8'' \<notin> set body \<and>
         imageToHex cfg wd filename =
           (case NewRGBA wd (bounds rgba) of
              Inl err \<Rightarrow> Inl err
            | Inr fresh \<Rightarrow> Inr (headerBlock filename (bounds rgba) @ body)))) \<and>
   (\<forall>out. imageToHex cfg wd filename = Inr out \<longrightarrow>
      (\<exists>format rgba body. openImage wd filename = Inr (format, rgba) \<and>
         out = headerBlock filename (bounds rgba) @ body \<and> CHR ''8'' \<notin> set body))"
proof (intro conjI allI impI)
  show "nearestColor r g b \<noteq> 8" by (rule nearestColor_not_8)
  show "CHR ''8'' \<notin> set (encodePixel cfg c)" by (rule encodePixel_no_8)
  show "CHR ''8'' \<notin> set (outputText (imageToRawHex cfg wd filename))"
    by (rule imageToRawHex_no_8)
  show "\<exists>body. CHR ''8'' \<notin> set body \<and>
         imageToHex cfg wd filename =
           (case NewRGBA wd (bounds rgba) of
              Inl err \<Rightarrow> Inl err
            | Inr fresh \<Rightarrow> Inr (headerBlock filename (bounds rgba) @ body))"
    if "openImage wd filename = Inr (format, rgba) \<and> supportedFormat format" for format rgba
  proof -
    let ?body = "concat (map (\<lambda>y. encodeRow cfg rgba y @ newline)
                             [minY (bounds rgba) .. maxY (bounds rgba) - 1])"
    from that have o: "openImage wd filename = Inr (format, rgba)"
      and s: "supportedFormat format" by simp_all
    have "CHR ''8'' \<notin> set ?body"
      by (auto simp: newline_def encodeRow_no_8)
    with imageToHex_unfold [OF o s, of cfg] show ?thesis by blast
  qed
  show "\<exists>format rgba body. openImage wd filename = Inr (format, rgba) \<and>
         out = headerBlock filename (bounds rgba) @ body \<and> CHR ''8'' \<notin> set body"
    if "imageToHex cfg wd filename = Inr out" for out
  proof -
    from that obtain format rgba where o: "openImage wd filename = Inr (format, rgba)"
      and t: "out = headerBlock filename (bounds rgba) @
                concat (map (\<lambda>y. encodeRow cfg rgba y @ newline)
                            [minY (bounds rgba) .. maxY (bounds rgba) - 1])"
      by (rule imageToHex_Inr)
    have "CHR ''8'' \<notin> set (concat (map (\<lambda>y. encodeRow cfg rgba y @ newline)
                            [minY (bounds rgba) .. maxY (bounds rgba) - 1]))"
      by (auto simp: newline_def encodeRow_no_8)
    with o t show ?thesis by blast
  qed
qed


text \<open>An opaque black image, 8 pixels wide and 1 high, in raw mode.\<close>

theorem digit_8_never_encoded_witness:
  "nearestColor 0xD7D7 0 0 \<noteq> 8 \<and>
   CHR ''8'' \<notin> set (outputText (imageToRawHex defaultConfig (imageWorld (blackImage 8 1)) ''a.png'')) \<and>
   outputText (imageToRawHex defaultConfig (imageWorld (blackImage 8 1)) ''a.png'') =
     ''00000000'' @ newline"
proof -
  note t = digit_8_never_encoded [of "0xD7D7" 0 0 defaultConfig "RGBA 0 0 0 255"
      "imageWorld (blackImage 8 1)" "''a.png''"]
  have "outputText (imageToRawHex defaultConfig (imageWorld (blackImage 8 1)) ''a.png'') =
     ''00000000'' @ newline"
    by code_simp
  with t [THEN conjunct1] t [THEN conjunct2, THEN conjunct2, THEN conjunct1]
  show ?thesis by blast
qed

text \<open>
  The claim as stated, for any output of \<open>imageToHex\<close>, fails on the same image: the
  header block states its width, \<open># width: 8\<close>.
\<close>

theorem digit_8_in_header:
  "CHR ''8'' \<in> set (outputText (imageToHex defaultConfig (imageWorld (blackImage 8 1)) ''a.png'')) \<and>
   outputText (imageToHex defaultConfig (imageWorld (blackImage 8 1)) ''a.png'') =
     ''# file: a.png'' @ newline @ ''# width: 8'' @ newline @ ''# height: 1'' @ newline @
     ''# generator: zxtex'' @ newline @ ''00000000'' @ newline"
  by code_simp

section \<open>The round trip\<close>

subsection \<open>Decimal numbers\<close>

lemma decimal_digit: "\<forall>d<16. d < 10 \<longrightarrow> digits ! d \<in> set ''0123456789''"
  by (simp only: all_less_16) code_simp

lemma set_formatNat: "set (formatNat 10 n) \<subseteq> set ''0123456789''"
proof (induction n rule: less_induct)
  case (less n)
  show ?case
  proof (cases "n < 10")
    case True
    then have "digits ! n \<in> set ''0123456789''" using decimal_digit by auto
    with True show ?thesis by (simp add: formatNat.simps [of 10 n])
  next
    case False
    then have "n div 10 < n" by simp
    from less [OF this] have 1: "set (formatNat 10 (n div 10)) \<subseteq> set ''0123456789''" .
    have "n mod 10 < 10" by simp
    then have 2: "digits ! (n mod 10) \<in> set ''0123456789''" using decimal_digit by auto
    from False have "formatNat 10 n = formatNat 10 (n div 10) @ [digits ! (n mod 10)]"
      by (simp add: formatNat.simps [of 10 n])
    with 1 2 show ?thesis by simp
  qed
qed

lemma length_formatNat: "0 < k \<Longrightarrow> n < 10 ^ k \<Longrightarrow> length (formatNat 10 n) \<le> k"
proof (induction k arbitrary: n)
  case 0
  then show ?case by simp
next
  case (Suc k)
  show ?case
  proof (cases "n < 10")
    case True
    then show ?thesis by (simp add: formatNat.simps [of 10 n])
  next
    case False
    then have k: "0 < k" using Suc.prems by (cases k) auto
    from Suc.prems have "n div 10 < 10 ^ k" by (simp add: less_mult_imp_div_less mult.commute)
    from Suc.IH [OF k this] False show ?thesis by (simp add: formatNat.simps [of 10 n])
  qed
qed

lemma FormatInt_decimal:
  assumes "0 \<le> i"
  shows "CHR 0x0A \<notin> set (FormatInt i 10)"
    and "0 < k \<Longrightarrow> i < 10 ^ k \<Longrightarrow> length (FormatInt i 10) \<le> k"
proof -
  from assms have f: "FormatInt i 10 = formatNat 10 (nat i)" by (simp add: FormatInt_def)
  show "CHR 0x0A \<notin> set (FormatInt i 10)"
    using set_formatNat [of "nat i"] by (auto simp: f)
  show "length (FormatInt i 10) \<le> k" if "0 < k" "i < 10 ^ k"
  proof -
    from that(2) assms have "nat i < 10 ^ k" by (simp add: nat_less_iff)
    with that(1) show ?thesis unfolding f by (rule length_formatNat)
  qed
qed

subsection \<open>Lines that pass through the parser unchanged\<close>

lemma TrimRightCR_Cons: "c \<noteq> CHR 0x0D \<Longrightarrow> TrimRightCR (c # s) = c # TrimRightCR s"
  by (simp add: TrimRightCR_def dropWhile_append)

lemma TrimRightCR_id: "CHR 0x0D \<notin> set s \<Longrightarrow> TrimRightCR s = s"
proof (induction s)
  case Nil
  then show ?case by (simp add: TrimRightCR_def)
next
  case (Cons a s)
  then have "a \<noteq> CHR 0x0D" by auto
  from TrimRightCR_Cons [OF this] Cons show ?case by simp
qed

lemma isHeader_hash: "isHeader (CHR ''#'' # s)"
  by (simp add: isHeader_def TrimRightCR_Cons HasPrefix_def)

lemma filterHexLine_ascii:
  "\<forall>c \<in> set s. byte c < 128 \<and> c \<noteq> CHR '' '' \<and> c \<noteq> CHR 0x09 \<Longrightarrow> filterHexLine s = s"
proof (induction s)
  case Nil
  then show ?case by (simp add: filterHexLine.simps [of "[]"])
next
  case (Cons c s)
  then have c: "byte c < 128" "c \<noteq> CHR '' ''" "c \<noteq> CHR 0x09" and IH: "filterHexLine s = s"
    by simp_all
  from c(1) have "decodeRuneWidth (c # s) = (1, True)" by (simp add: decodeRuneWidth_def)
  with c IH show ?case by (simp add: filterHexLine.simps [of "c # s"])
qed

text \<open>A line of cell characters is a content line and is its own processed form.\<close>

lemma cell_line:
  assumes "\<forall>c \<in> set l. \<exists>cl. reachableCell cl \<and> c = cellChar cl" and "l \<noteq> []"
  shows "\<not> isHeader l" and "processed l = l" and "list_all keepChar l"
    and "CHR 0x0A \<notin> set l"
proof -
  have facts: "keepChar c \<and> byte c < 128 \<and> c \<noteq> CHR ''#'' \<and> c \<noteq> CHR '' '' \<and>
               c \<noteq> CHR 0x09 \<and> c \<noteq> CHR 0x0A \<and> c \<noteq> CHR 0x0D" if "c \<in> set l" for c
  proof -
    from assms(1) that obtain cl where "reachableCell cl" and "c = cellChar cl" by blast
    with cellChar_facts [of cl] show ?thesis by simp
  qed
  then have cr: "CHR 0x0D \<notin> set l" and nl: "CHR 0x0A \<notin> set l" by blast+
  from assms(2) obtain c l' where l: "l = c # l'" by (cases l) auto
  with facts [of c] have "c \<noteq> CHR ''#''" by simp
  moreover have "isHeader l = HasPrefix l ''#''"
    by (simp only: isHeader_def TrimRightCR_id [OF cr])
  ultimately show "\<not> isHeader l" by (simp add: HasPrefix_def l)
  have "stripInlineComment l = l"
    using facts by (simp add: stripInlineComment_def takeWhile_eq_all_conv)
  moreover have "filterHexLine l = l" using facts by (intro filterHexLine_ascii) blast
  ultimately show "processed l = l" by (simp add: processed_def TrimRightCR_id [OF cr])
  show "list_all keepChar l" using facts by (simp add: list_all_iff)
  show "CHR 0x0A \<notin> set l" by (rule nl)
qed

lemma contentLines_cell_lines:
  assumes "\<forall>l \<in> set rows. l \<noteq> [] \<and> (\<forall>c \<in> set l. \<exists>cl. reachableCell cl \<and> c = cellChar cl)"
  shows "contentLines rows = rows"
  using assms
proof (induction rows)
  case Nil
  then show ?case by (simp add: contentLines_def)
next
  case (Cons l rows)
  then have "\<not> isHeader l" "processed l = l" "l \<noteq> []"
    using cell_line(1,2) [of l] by simp_all
  moreover from Cons have "contentLines rows = rows" by simp
  ultimately show ?case by (simp add: contentLines_def)
qed

lemma scanLines_rows:
  "\<forall>l \<in> set rows. CHR 0x0A \<notin> set l \<Longrightarrow>
   scanLines (concat (map (\<lambda>l. l @ newline) rows)) = rows"
proof (induction rows)
  case Nil
  then show ?case by simp
next
  case (Cons l rows)
  then have "CHR 0x0A \<notin> set l" by simp
  from scanLines_line [OF this, of "concat (map (\<lambda>l. l @ newline) rows)"] Cons
  show ?case by (simp add: newline_def)
qed

lemma concat_nth:
  "\<forall>l \<in> set rows. length l = w \<Longrightarrow> y < length rows \<Longrightarrow> x < w \<Longrightarrow>
   concat rows ! (y * w + x) = rows ! y ! x"
proof (induction rows arbitrary: y)
  case Nil
  then show ?case by simp
next
  case (Cons l rows)
  show ?case
  proof (cases y)
    case 0
    with Cons.prems show ?thesis by (simp add: nth_append)
  next
    case (Suc y')
    with Cons.prems have "concat rows ! (y' * w + x) = rows ! y' ! x"
      by (intro Cons.IH) simp_all
    with Cons.prems Suc show ?thesis by (simp add: nth_append)
  qed
qed

lemma length_concat_rows:
  "\<forall>l \<in> set rows. length l = w \<Longrightarrow> length (concat rows) = length rows * w"
  by (induction rows) simp_all

section \<open>Encoding, parsing and decoding an image\<close>

lemma palette_distinct:
  "\<forall>i<16. \<forall>j<16. i \<noteq> 8 \<longrightarrow> j \<noteq> 8 \<longrightarrow> ZXPalette ! i = ZXPalette ! j \<longrightarrow> i = j"
  by (simp only: all_less_16) code_simp

lemma palette_opaque: "\<forall>i<16. ZXPalette ! i \<noteq> RGBA 0 0 0 0"
  by (simp only: all_less_16) code_simp

lemma render_inj:
  assumes "reachableCell a" and "reachableCell b" and "render a = render b"
  shows "a = b"
proof (cases a)
  case Transparent
  with assms palette_opaque show ?thesis
    by (cases b) (auto simp: render_def reachableCell_def)
next
  case (PaletteIndex i)
  note a = this
  show ?thesis
  proof (cases b)
    case Transparent
    with a assms palette_opaque show ?thesis
      by (auto simp: render_def reachableCell_def)
  next
    case (PaletteIndex j)
    with a assms have "i < 16" "j < 16" "i \<noteq> 8" "j \<noteq> 8" "ZXPalette ! i = ZXPalette ! j"
      by (simp_all add: render_def reachableCell_def)
    with palette_distinct have "i = j" by blast
    with a PaletteIndex show ?thesis by simp
  qed
qed


subsection \<open>The encoded text and its lines\<close>

lemma imageToHex_text:
  assumes "openImage wd filename = Inr (format, rgba)" and "supportedFormat format"
    and "NewRGBA wd (bounds rgba) = Inr z"
  shows "imageToHex cfg wd filename =
           Inr (headerBlock filename (bounds rgba) @
                concat (map (\<lambda>l. l @ newline) (encodedRows cfg rgba)))"
proof -
  have "concat (map (\<lambda>y. encodeRow cfg rgba y @ newline) ys) =
        concat (map (\<lambda>l. l @ newline) (map (encodeRow cfg rgba) ys))" for ys
    by (simp add: comp_def)
  with assms(3) show ?thesis
    by (simp add: imageToHex_unfold [OF assms(1,2)] encodedRows_def)
qed

lemma scanLines_headerBlock:
  assumes "CHR 0x0A \<notin> set filename" and "0 \<le> Dx r" and "0 \<le> Dy r"
  shows "scanLines (headerBlock filename r @ rest) = headerLines filename r @ scanLines rest"
proof -
  define l1 l2 l3 l4 where "l1 = ''# file: '' @ filename"
    and "l2 = ''# width: '' @ FormatInt (Dx r) 10"
    and "l3 = ''# height: '' @ FormatInt (Dy r) 10"
    and "l4 = ''# generator: zxtex''"
  have 1: "CHR 0x0A \<notin> set l1" using assms(1) by (simp add: l1_def)
  have 2: "CHR 0x0A \<notin> set l2"
    using FormatInt_decimal(1) [OF assms(2)] by (simp add: l2_def)
  have 3: "CHR 0x0A \<notin> set l3"
    using FormatInt_decimal(1) [OF assms(3)] by (simp add: l3_def)
  have 4: "CHR 0x0A \<notin> set l4" by (simp add: l4_def)
  have eq: "headerBlock filename r @ rest =
     l1 @ CHR 0x0A # l2 @ CHR 0x0A # l3 @ CHR 0x0A # l4 @ CHR 0x0A # rest"
    by (simp add: headerBlock_def newline_def l1_def l2_def l3_def l4_def)
  have "scanLines (l1 @ CHR 0x0A # l2 @ CHR 0x0A # l3 @ CHR 0x0A # l4 @ CHR 0x0A # rest) =
     l1 # l2 # l3 # l4 # scanLines rest"
    by (simp only: scanLines_line [OF 1] scanLines_line [OF 2] scanLines_line [OF 3]
        scanLines_line [OF 4])
  moreover have "headerLines filename r = [l1, l2, l3, l4]"
    by (simp only: headerLines_def l1_def l2_def l3_def l4_def)
  ultimately show ?thesis by (simp only: eq append_Cons append_Nil)
qed

lemma headerLines_facts:
  assumes "0 \<le> Dx r" and "Dx r < 65536" and "0 \<le> Dy r" and "Dy r < 2 ^ 63"
    and "length filename + 8 < 65536"
  shows "\<forall>l \<in> set (headerLines filename r). isHeader l \<and> length l < MaxScanTokenSize"
proof -
  have "Dx r < 10 ^ 5" using assms(2) by simp
  from FormatInt_decimal(2) [OF assms(1) _ this] have w: "length (FormatInt (Dx r) 10) \<le> 5"
    by simp
  have "Dy r < 10 ^ 19" using assms(4) by simp
  from FormatInt_decimal(2) [OF assms(3) _ this] have h: "length (FormatInt (Dy r) 10) \<le> 19"
    by simp
  from w h assms(5) show ?thesis
    by (simp add: headerLines_def isHeader_hash MaxScanTokenSize_def)
qed

subsection \<open>The rows\<close>

lemma encodedRows_facts:
  assumes "0 \<le> Dx (bounds rgba)" and "0 \<le> Dy (bounds rgba)"
  shows "length (encodedRows cfg rgba) = nat (Dy (bounds rgba))"
    and "\<forall>l \<in> set (encodedRows cfg rgba). length l = nat (Dx (bounds rgba))"
    and "\<forall>l \<in> set (encodedRows cfg rgba). \<forall>c \<in> set l. \<exists>cl. reachableCell cl \<and> c = cellChar cl"
    and "\<And>x y. x < nat (Dx (bounds rgba)) \<Longrightarrow> y < nat (Dy (bounds rgba)) \<Longrightarrow>
           encodedRows cfg rgba ! y ! x =
             cellChar (quantize cfg (imgAt rgba (minX (bounds rgba) + int x)
                                                (minY (bounds rgba) + int y)))"
proof -
  let ?r = "bounds rgba"
  show len: "length (encodedRows cfg rgba) = nat (Dy ?r)"
    by (simp add: encodedRows_def Dy_def)
  show "\<forall>l \<in> set (encodedRows cfg rgba). length l = nat (Dx ?r)"
    by (auto simp: encodedRows_def encodeRow_cells Dx_def)
  show "\<forall>l \<in> set (encodedRows cfg rgba). \<forall>c \<in> set l. \<exists>cl. reachableCell cl \<and> c = cellChar cl"
    using quantize_reachable by (auto simp: encodedRows_def encodeRow_cells)
  show "encodedRows cfg rgba ! y ! x =
          cellChar (quantize cfg (imgAt rgba (minX ?r + int x) (minY ?r + int y)))"
    if "x < nat (Dx ?r)" "y < nat (Dy ?r)" for x y
  proof -
    from that(2) have y: "y < length [minY ?r .. maxY ?r - 1]" by (simp add: Dy_def)
    from that(2) have "[minY ?r .. maxY ?r - 1] ! y = minY ?r + int y"
      by (intro nth_upto) (simp add: Dy_def)
    with y have row: "encodedRows cfg rgba ! y = encodeRow cfg rgba (minY ?r + int y)"
      by (simp add: encodedRows_def)
    from that(1) have x: "x < length [minX ?r .. maxX ?r - 1]" by (simp add: Dx_def)
    from that(1) have "[minX ?r .. maxX ?r - 1] ! x = minX ?r + int x"
      by (intro nth_upto) (simp add: Dx_def)
    with x show ?thesis by (simp add: row encodeRow_cells)
  qed
qed

lemma ceilDiv_mult:
  assumes "0 < w"
  shows "ceilDiv (h * w) w = h"
proof -
  have "((- h) * w) div w = - h" using assms by (intro nonzero_mult_div_cancel_right) simp
  then show ?thesis by (simp add: ceilDiv_def)
qed


subsection \<open>Encoding, parsing and decoding\<close>

text \<open>
  Claim C1, within what the scanner reads. Take an image file that decodes to a grid at
  least 1 and at most 65535 pixels wide and at least 1 (and, as a Go \<open>int\<close>, less than
  \<open>2^63\<close>) pixels high, under a file name without a line feed and of at most 65527
  bytes, and that \<open>imageToHex\<close> encodes: the format is a supported one and
  \<open>image.NewRGBA\<close> has provided the pixel buffer for the grid. Encoding it with
  \<open>imageToHex\<close>, parsing the text back
  and building the grid at the declared width yields an image of the same width and
  height whose pixel at every column and row is the rendering of the cell of the
  original pixel there: fully transparent for a transparent cell, the palette colour
  for a palette index. The cell is the only reachable cell with that rendering, so the
  cell contents are identical. (The buffer that the decoding needs has the size of the
  one that the encoding was given.)
\<close>

theorem round_trip:
  assumes "openImage wd filename = Inr (format, rgba)"
    and "imageToHex cfg wd filename = Inr encoded"
    and "1 \<le> Dx (bounds rgba)" and "Dx (bounds rgba) < 65536"
    and "1 \<le> Dy (bounds rgba)" and "Dy (bounds rgba) < 2 ^ 63"
    and "CHR 0x0A \<notin> set filename" and "length filename + 8 < 65536"
  shows "\<exists>img. roundTrip cfg wd filename = Inr img \<and>
           bounds img = \<lparr>minX = 0, minY = 0, maxX = Dx (bounds rgba), maxY = Dy (bounds rgba)\<rparr> \<and>
           (\<forall>x y. 0 \<le> x \<and> x < Dx (bounds rgba) \<and> 0 \<le> y \<and> y < Dy (bounds rgba) \<longrightarrow>
              imgAt img x y =
                render (quantize cfg (imgAt rgba (minX (bounds rgba) + x) (minY (bounds rgba) + y))) \<and>
              (\<forall>cl. reachableCell cl \<and> render cl = imgAt img x y \<longrightarrow>
                 cl = quantize cfg (imgAt rgba (minX (bounds rgba) + x) (minY (bounds rgba) + y))))"
proof -
  let ?r = "bounds rgba"
  let ?W = "Dx ?r" and ?H = "Dy ?r"
  let ?rows = "encodedRows cfg rgba"
  let ?text = "headerBlock filename ?r @ concat (map (\<lambda>l. l @ newline) ?rows)"
  let ?s = "concat ?rows"
  from assms(3,5) have W0: "0 \<le> ?W" and H0: "0 \<le> ?H" by simp_all
  note rows = encodedRows_facts [OF W0 H0, where cfg = cfg]
  from assms(2) obtain format' rgba' where "openImage wd filename = Inr (format', rgba')"
    and "supportedFormat format'"
    and "NewRGBA wd (bounds rgba') = Inr (zeroImage (bounds rgba'))"
    by (rule imageToHex_Inr)
  with assms(1) have sup: "supportedFormat format"
    and buf: "NewRGBA wd ?r = Inr (zeroImage ?r)"
    by simp_all
  have enc: "imageToHex cfg wd filename = Inr ?text"
    using assms(1) sup buf by (rule imageToHex_text)
  \<comment> \<open>the rows as lines\<close>
  have rowcells: "\<forall>l \<in> set ?rows. l \<noteq> [] \<and> (\<forall>c \<in> set l. \<exists>cl. reachableCell cl \<and> c = cellChar cl)"
    using rows(2,3) assms(3) by auto
  have rownl: "\<forall>l \<in> set ?rows. CHR 0x0A \<notin> set l"
    using rowcells cell_line(4) by blast
  have rowkeep: "list_all keepChar ?s"
    using rowcells cell_line(3) by (auto simp: list_all_iff)
  have lines: "scanLines ?text = headerLines filename ?r @ ?rows"
    using scanLines_headerBlock [OF assms(7) W0 H0] scanLines_rows [OF rownl] by simp
  note hdr = headerLines_facts [OF W0 assms(4) H0 assms(6,8)]
  have short: "\<forall>l \<in> set (scanLines ?text). length l < MaxScanTokenSize"
    using hdr rows(2) assms(4) by (auto simp: lines MaxScanTokenSize_def)
  \<comment> \<open>the parse\<close>
  have "contentLines (headerLines filename ?r) = []"
    using hdr by (intro contentLines_headers) blast
  with contentLines_cell_lines [OF rowcells]
  have content: "contentLines (scanLines ?text) = ?rows"
    by (simp add: lines contentLines_append)
  from rows(1) assms(5) have ne: "?rows \<noteq> []" by auto
  then obtain l ls where rl: "?rows = l # ls" by (cases ?rows) auto
  with rows(2) have "length l = nat ?W" by simp
  moreover have "declaredWidth (scanLines ?text) = (case ?rows of [] \<Rightarrow> 0 | l # x \<Rightarrow> int (length l))"
    by (simp only: declaredWidth_def content)
  ultimately have declared: "declaredWidth (scanLines ?text) = ?W"
    using rl assms(3) by simp
  have joined: "filterHexString ?s = ?s"
    using rowkeep by (simp add: filterHexString_def list_all_iff)
  have parse: "parseContent ?text = Inr (?s, ?W, recoveredName (scanLines ?text))"
    using parseContent_lines [OF short] by (simp add: content declared joined)
  have rt: "roundTrip cfg wd filename = hexToImage wd ?s ?W"
    by (simp add: roundTrip_def enc parse)
  \<comment> \<open>the grid\<close>
  have len: "length ?s = nat ?H * nat ?W"
    using length_concat_rows [OF rows(2)] rows(1) by simp
  have "0 < nat ?H * nat ?W" using assms(3,5) by simp
  with len have "0 < length ?s" by simp
  then have sne: "?s \<noteq> []" by (rule length_greater_0_conv [THEN iffD1])
  from assms(3) have Wpos: "0 < ?W" by simp
  obtain img where grid: "hexGrid ?s ?W = Inr img"
    and b: "bounds img = \<lparr>minX = 0, minY = 0, maxX = ?W, maxY = ceilDiv (int (length ?s)) ?W\<rparr>"
    and px: "\<forall>k<length ?s. Some (imgAt img (int k mod ?W) (int k div ?W)) = cellColor (?s ! k)"
    and "\<forall>x y. pointIn x y (bounds img) \<longrightarrow> int (length ?s) \<le> y * ?W + x \<longrightarrow>
                 imgAt img x y = RGBA 0 0 0 0"
    by (rule hexGrid_positive [OF sne rowkeep Wpos])
  have "int (length ?s) = ?H * ?W" using len W0 H0 by simp
  then have cd: "ceilDiv (int (length ?s)) ?W = ?H" using Wpos by (simp add: ceilDiv_mult)
  with b have b': "bounds img = \<lparr>minX = 0, minY = 0, maxX = ?W, maxY = ?H\<rparr>" by simp
  \<comment> \<open>the buffer of the decoding is the one of the encoding\<close>
  have "?W < 2 ^ 63" using assms(4) by simp
  with buf assms(3,5,6) have "allocatable wd ?W ?H"
    by (intro NewRGBA_Inr_allocatable) simp_all
  moreover have iw: "inferWidth (int (length ?s)) ?W = ?W"
    using Wpos by (simp add: inferWidth_nonzero)
  ultimately have "allocatable wd (inferWidth (int (length ?s)) ?W)
      (ceilDiv (int (length ?s)) (inferWidth (int (length ?s)) ?W))"
    by (simp only: iw cd)
  moreover have "1 \<le> inferWidth (int (length ?s)) ?W" using assms(3) by (simp only: iw)
  ultimately have "hexToImage wd ?s ?W = hexGrid ?s ?W"
    using sne by (intro hexToImage_allocated)
  with grid have res: "hexToImage wd ?s ?W = Inr img" by simp
  have cellpx: "imgAt img x y = render (quantize cfg (imgAt rgba (minX ?r + x) (minY ?r + y))) \<and>
        (\<forall>cl. reachableCell cl \<and> render cl = imgAt img x y \<longrightarrow>
           cl = quantize cfg (imgAt rgba (minX ?r + x) (minY ?r + y)))"
    if xy: "0 \<le> x \<and> x < ?W \<and> 0 \<le> y \<and> y < ?H" for x y
  proof -
    let ?cl = "quantize cfg (imgAt rgba (minX ?r + x) (minY ?r + y))"
    define k where "k = nat y * nat ?W + nat x"
    from xy have nx: "nat x < nat ?W" and ny: "nat y < nat ?H" by simp_all
    have "nat y * nat ?W + nat x < nat y * nat ?W + nat ?W" using nx by simp
    also have "\<dots> = Suc (nat y) * nat ?W" by simp
    also have "\<dots> \<le> nat ?H * nat ?W"
    proof -
      have "Suc (nat y) \<le> nat ?H" using xy by linarith
      then show ?thesis by (rule mult_le_mono1)
    qed
    finally have klen: "k < length ?s" by (simp add: len k_def)
    have ik: "int k = y * ?W + x" using xy W0 by (simp add: k_def)
    have md: "int k mod ?W = x" "int k div ?W = y" using xy by (simp_all add: ik)
    have "?s ! k = ?rows ! nat y ! nat x"
      unfolding k_def using rows(2) ny nx by (intro concat_nth) (simp_all add: rows(1))
    also have "\<dots> = cellChar ?cl" using rows(4) [OF nx ny] xy by simp
    finally have ch: "?s ! k = cellChar ?cl" .
    from px klen have "Some (imgAt img x y) = cellColor (?s ! k)" by (auto simp: md)
    also have "\<dots> = Some (render ?cl)"
      unfolding ch using quantize_reachable by (rule cellChar_facts(1))
    finally have eq: "imgAt img x y = render ?cl" by simp
    have "cl = ?cl" if "reachableCell cl \<and> render cl = imgAt img x y" for cl
      using that quantize_reachable [of cfg "imgAt rgba (minX ?r + x) (minY ?r + y)"] eq
      by (intro render_inj) simp_all
    with eq show ?thesis by blast
  qed
  have cells: "\<forall>x y. 0 \<le> x \<and> x < ?W \<and> 0 \<le> y \<and> y < ?H \<longrightarrow>
      imgAt img x y = render (quantize cfg (imgAt rgba (minX ?r + x) (minY ?r + y))) \<and>
      (\<forall>cl. reachableCell cl \<and> render cl = imgAt img x y \<longrightarrow>
         cl = quantize cfg (imgAt rgba (minX ?r + x) (minY ?r + y)))"
    by (intro allI impI cellpx)
  from rt res have r: "roundTrip cfg wd filename = Inr img" by simp
  show ?thesis
    by (rule exI [of _ img], rule conjI [OF r conjI [OF b' cells]])
qed


text \<open>A row too long for the scanner: the parse fails, and so does the round trip.\<close>

lemma round_trip_too_wide:
  assumes "openImage wd filename = Inr (format, rgba)" and "supportedFormat format"
    and "65536 \<le> Dx (bounds rgba)" and "1 \<le> Dy (bounds rgba)"
    and "CHR 0x0A \<notin> set filename" and "NewRGBA wd (bounds rgba) = Inr z"
  shows "roundTrip cfg wd filename = Inl ErrTooLong"
proof -
  let ?r = "bounds rgba"
  let ?rows = "encodedRows cfg rgba"
  let ?text = "headerBlock filename ?r @ concat (map (\<lambda>l. l @ newline) ?rows)"
  from assms(3,4) have W0: "0 \<le> Dx ?r" and H0: "0 \<le> Dy ?r" by simp_all
  note rows = encodedRows_facts [OF W0 H0, where cfg = cfg]
  have enc: "imageToHex cfg wd filename = Inr ?text"
    using assms(1,2,6) by (rule imageToHex_text)
  have rowcells: "\<forall>l \<in> set ?rows. l \<noteq> [] \<and> (\<forall>c \<in> set l. \<exists>cl. reachableCell cl \<and> c = cellChar cl)"
    using rows(2,3) assms(3) by auto
  have rownl: "\<forall>l \<in> set ?rows. CHR 0x0A \<notin> set l"
    using rowcells cell_line(4) by blast
  have lines: "scanLines ?text = headerLines filename ?r @ ?rows"
    using scanLines_headerBlock [OF assms(5) W0 H0] scanLines_rows [OF rownl] by simp
  from rows(1) assms(4) have "?rows \<noteq> []" by auto
  then obtain l where l: "l \<in> set ?rows" by (cases ?rows) auto
  with rows(2) assms(3) have "MaxScanTokenSize \<le> length l"
    by (simp add: MaxScanTokenSize_def)
  with l have "\<exists>l \<in> set (scanLines ?text). MaxScanTokenSize \<le> length l"
    by (auto simp: lines)
  from parseContent_too_long [OF this] show ?thesis
    by (simp add: roundTrip_def enc)
qed

text \<open>The two-pixel image: bright red, then transparent.\<close>

theorem round_trip_witness:
  "imageSize (roundTrip defaultConfig (imageWorld twoPixels) ''a.png'') = Some (2, 1) \<and>
   pixelAt (roundTrip defaultConfig (imageWorld twoPixels) ''a.png'') 0 0 =
     Some (RGBA 255 0 0 255) \<and>
   pixelAt (roundTrip defaultConfig (imageWorld twoPixels) ''a.png'') 1 0 =
     Some (RGBA 0 0 0 0)"
proof -
  have b: "bounds twoPixels = \<lparr>minX = 0, minY = 0, maxX = 2, maxY = 1\<rparr>"
    by (simp add: twoPixels_def Rect_def)
  have e: "imageToHex defaultConfig (imageWorld twoPixels) ''a.png'' =
      Inr (''# file: a.png'' @ newline @ ''# width: 2'' @ newline @ ''# height: 1'' @ newline @
           ''# generator: zxtex'' @ newline @ ''A.'' @ newline)"
    by code_simp
  have a: "openImage (imageWorld twoPixels) ''a.png'' = Inr (''png'', twoPixels)"
    "1 \<le> Dx (bounds twoPixels)" "Dx (bounds twoPixels) < 65536"
    "1 \<le> Dy (bounds twoPixels)" "Dy (bounds twoPixels) < 2 ^ 63"
    "CHR 0x0A \<notin> set ''a.png''" "length ''a.png'' + 8 < 65536"
    by (simp_all add: imageWorld_def b Dx_def Dy_def)
  have d: "Dx (bounds twoPixels) = 2" "Dy (bounds twoPixels) = 1"
    by (simp_all add: b Dx_def Dy_def)
  from round_trip [OF a(1) e a(2-)] obtain img where
    rt: "roundTrip defaultConfig (imageWorld twoPixels) ''a.png'' = Inr img"
    and bi: "bounds img = \<lparr>minX = 0, minY = 0, maxX = 2, maxY = 1\<rparr>"
    and px: "\<forall>x y. 0 \<le> x \<and> x < 2 \<and> 0 \<le> y \<and> y < 1 \<longrightarrow>
      imgAt img x y =
        render (quantize defaultConfig (imgAt twoPixels (minX (bounds twoPixels) + x)
           (minY (bounds twoPixels) + y))) \<and>
      (\<forall>cl. reachableCell cl \<and> render cl = imgAt img x y \<longrightarrow>
         cl = quantize defaultConfig (imgAt twoPixels (minX (bounds twoPixels) + x)
           (minY (bounds twoPixels) + y)))"
    unfolding d by blast
  have c0: "render (quantize defaultConfig (imgAt twoPixels 0 0)) = RGBA 255 0 0 255"
    and c1: "render (quantize defaultConfig (imgAt twoPixels 1 0)) = RGBA 0 0 0 0"
    by code_simp+
  from px [rule_format, of 0 0] have "imgAt img 0 0 = RGBA 255 0 0 255"
    by (simp add: b c0)
  moreover from px [rule_format, of 1 0] have "imgAt img 1 0 = RGBA 0 0 0 0"
    by (simp add: b c1)
  ultimately show ?thesis
    by (simp add: rt bi pixelAt_def imageSize_def Dx_def Dy_def)
qed

lemma newline_name_text:
  "imageToHex defaultConfig (imageWorld (blackImage 1 1)) (''a'' @ newline @ ''F.png'') =
     Inr (''# file: a'' @ newline @ ''F.png'' @ newline @ ''# width: 1'' @ newline @
          ''# height: 1'' @ newline @ ''# generator: zxtex'' @ newline @ ''0'' @ newline)"
  by code_simp

lemma newline_name_lines:
  "scanLines (''# file: a'' @ newline @ ''F.png'' @ newline @ ''# width: 1'' @ newline @
          ''# height: 1'' @ newline @ ''# generator: zxtex'' @ newline @ ''0'' @ newline) =
     [''# file: a'', ''F.png'', ''# width: 1'', ''# height: 1'', ''# generator: zxtex'', ''0'']"
  by (simp add: newline_def)

lemma newline_name_parts:
  "filterHexString (concat (contentLines
     [''# file: a'', ''F.png'', ''# width: 1'', ''# height: 1'', ''# generator: zxtex'', ''0''])) =
     ''F.0''"
  "declaredWidth
     [''# file: a'', ''F.png'', ''# width: 1'', ''# height: 1'', ''# generator: zxtex'', ''0''] = 5"
  "imageSize (hexToImage (imageWorld (blackImage 1 1)) ''F.0'' 5) = Some (5, 1)"
  by code_simp+

text \<open>
  The claim as stated, for every grid of width at least 1, fails. An opaque black image
  65536 pixels wide and 1 high encodes to a row line of 65536 bytes, which the scanner
  refuses: the parse returns \<open>ErrTooLong\<close> and no grid. And under a file name with a
  line feed in it, \<open>a\<close>, line feed, \<open>F.png\<close>, the header line of a 1 by 1 image breaks
  in two; its second half is read as the first content line, and the grid that comes
  back is 5 wide.
\<close>

theorem round_trip_fails:
  "roundTrip defaultConfig (imageWorld (blackImage 65536 1)) ''a.png'' = Inl ErrTooLong \<and>
   imageSize (roundTrip defaultConfig (imageWorld (blackImage 1 1)) (''a'' @ newline @ ''F.png'')) =
     Some (5, 1)"
proof
  have "openImage (imageWorld (blackImage 65536 1)) ''a.png'' = Inr (''png'', blackImage 65536 1)"
    and "supportedFormat ''png''"
    and "65536 \<le> Dx (bounds (blackImage 65536 1))" and "1 \<le> Dy (bounds (blackImage 65536 1))"
    and "CHR 0x0A \<notin> set ''a.png''"
    and "NewRGBA (imageWorld (blackImage 65536 1)) (bounds (blackImage 65536 1)) =
         Inr (zeroImage (bounds (blackImage 65536 1)))"
    by (simp_all add: imageWorld_def supportedFormat_def blackImage_def Rect_def Dx_def Dy_def
        NewRGBA_def goInt_def mul3NonNeg_def)
  then show "roundTrip defaultConfig (imageWorld (blackImage 65536 1)) ''a.png'' = Inl ErrTooLong"
    by (rule round_trip_too_wide)
  let ?text = "''# file: a'' @ newline @ ''F.png'' @ newline @ ''# width: 1'' @ newline @
          ''# height: 1'' @ newline @ ''# generator: zxtex'' @ newline @ ''0'' @ newline"
  have short: "\<forall>l \<in> set (scanLines ?text). length l < MaxScanTokenSize"
    by (simp only: newline_name_lines) (simp add: MaxScanTokenSize_def)
  have "parseContent ?text = Inr (''F.0'', 5, recoveredName (scanLines ?text))"
    using parseContent_lines [OF short] by (simp only: newline_name_lines newline_name_parts)
  then show "imageSize (roundTrip defaultConfig (imageWorld (blackImage 1 1))
          (''a'' @ newline @ ''F.png'')) = Some (5, 1)"
    by (simp only: roundTrip_def newline_name_text newline_name_parts sum.case prod.case)
qed

end
